theory Spec2Isabelle
  imports Main "HOL-Library.Sublist"
begin

section \<open>Strings\<close>

text \<open>
  The program is Python: a \<^verbatim>\<open>str\<close> is a sequence of Unicode code points and
  \<^verbatim>\<open>len\<close> counts code points.  A character is therefore modelled by its code point,
  a natural number, and a string by a list of code points.  ASCII literals are written
  through \<open>u\<close>; the few non-ASCII characters of the source are given by number.
\<close>

type_synonym uchar = nat
type_synonym ustring = "nat list"

definition u :: "string \<Rightarrow> ustring" where
  "u s = map of_char s"

definition NL :: ustring where
  "NL = [10]"

definition SP :: ustring where
  "SP = [32]"

text \<open>
  \<^verbatim>\<open>str.isspace\<close>, \<^verbatim>\<open>str.strip()\<close> and the regular expression class
  \<^verbatim>\<open>\s\<close> (on \<^verbatim>\<open>str\<close> patterns) agree on what whitespace is: the code points of
  bidirectional type WS, B or S and of category Zs.
\<close>

definition is_space :: "uchar \<Rightarrow> bool" where
  "is_space c = (c \<in> {9, 10, 11, 12, 13, 28, 29, 30, 31, 32, 133, 160, 5760,
                       8232, 8233, 8239, 8287, 12288}
                 \<or> (8192 \<le> c \<and> c \<le> 8202))"

text \<open>The line boundaries of \<^verbatim>\<open>str.splitlines\<close>; CR LF counts as one boundary.\<close>

definition is_linebreak :: "uchar \<Rightarrow> bool" where
  "is_linebreak c = (c \<in> {10, 11, 12, 13, 28, 29, 30, 133, 8232, 8233})"

fun splitlines_from :: "ustring \<Rightarrow> ustring \<Rightarrow> ustring list" where
  "splitlines_from cur [] = (if cur = [] then [] else [cur])"
| "splitlines_from cur (c # cs) =
     (if c = 13 \<and> cs \<noteq> [] \<and> hd cs = 10 then cur # splitlines_from [] (tl cs)
      else if is_linebreak c then cur # splitlines_from [] cs
      else splitlines_from (cur @ [c]) cs)"

definition py_splitlines :: "ustring \<Rightarrow> ustring list" where
  "py_splitlines text = splitlines_from [] text"

text \<open>\<^verbatim>\<open>s.strip(chars)\<close> and \<^verbatim>\<open>s.strip()\<close>.\<close>

definition py_strip_chars :: "uchar list \<Rightarrow> ustring \<Rightarrow> ustring" where
  "py_strip_chars chars s =
     rev (dropWhile (\<lambda>c. c \<in> set chars) (rev (dropWhile (\<lambda>c. c \<in> set chars) s)))"

definition py_strip :: "ustring \<Rightarrow> ustring" where
  "py_strip s = rev (dropWhile is_space (rev (dropWhile is_space s)))"

text \<open>\<^verbatim>\<open>sep.join(xs)\<close>.\<close>

fun py_join :: "ustring \<Rightarrow> ustring list \<Rightarrow> ustring" where
  "py_join sep [] = []"
| "py_join sep [x] = x"
| "py_join sep (x # y # ys) = x @ sep @ py_join sep (y # ys)"

section \<open>Text Normalizer\<close>

text \<open>
  \<^verbatim>\<open>re.sub(r"\s+", " ", ln)\<close>: scanning from the left, every maximal run of whitespace is
  replaced by one space.
\<close>

function re_sub_ws :: "ustring \<Rightarrow> ustring" where
  "re_sub_ws [] = []"
| "re_sub_ws (c # cs) =
     (if is_space c then 32 # re_sub_ws (dropWhile is_space cs) else c # re_sub_ws cs)"
  by pat_completeness auto
termination
  by (relation "measure length") (auto simp: length_dropWhile_le less_Suc_eq_le)

text \<open>
  The characters \<^verbatim>\<open>clean_lines\<close> strips from both ends of a line: space, bullet
  (U+2022), asterisk, hyphen, en dash (U+2013), em dash (U+2014), period, space.
\<close>

definition DECORATION :: "uchar list" where
  "DECORATION = [32, 8226, 42, 45, 8211, 8212, 46, 32]"

definition normalize_line :: "ustring \<Rightarrow> ustring" where
  "normalize_line ln = py_strip_chars DECORATION (re_sub_ws ln)"

definition clean_lines :: "ustring \<Rightarrow> ustring list" where
  "clean_lines text =
     (let lines = map normalize_line (py_splitlines text)
      in filter (\<lambda>ln. ln \<noteq> []) lines)"

text \<open>
  A line is whitespace-collapsed when its only whitespace characters are single spaces:
  each whitespace character is U+0020 and is not followed by another whitespace character.
\<close>

fun ws_collapsed :: "ustring \<Rightarrow> bool" where
  "ws_collapsed [] = True"
| "ws_collapsed [c] = (if is_space c then c = 32 else True)"
| "ws_collapsed (c # d # cs) =
     ((if is_space c then c = 32 \<and> \<not> is_space d else True) \<and> ws_collapsed (d # cs))"

section \<open>Unicode tables\<close>

text \<open>
  Case conversion (\<^verbatim>\<open>str.upper\<close>, \<^verbatim>\<open>str.lower\<close>, \<^verbatim>\<open>str.capitalize\<close>),
  the character equivalence of \<^verbatim>\<open>re.IGNORECASE\<close> and the digit class \<^verbatim>\<open>\d\<close> are
  tables of the Python runtime, not of this program.  The model takes them as a parameter:
  every function that depends on them receives the tables as its first argument, and
  every property below holds for any tables.  \<open>re_ci U p c\<close> reads: under
  \<^verbatim>\<open>IGNORECASE\<close> the pattern character \<open>p\<close> matches the text character \<open>c\<close>.
\<close>

record unicode =
  str_upper :: "ustring \<Rightarrow> ustring"
  str_lower :: "ustring \<Rightarrow> ustring"
  str_capitalize :: "ustring \<Rightarrow> ustring"
  re_ci :: "uchar \<Rightarrow> uchar \<Rightarrow> bool"
  re_digit :: "uchar \<Rightarrow> bool"

text \<open>
  The tables restricted to Basic Latin and the Latin-1 letters with a Latin-1 partner
  (which cover the Swedish alphabet); they agree with Python on all strings of such
  characters and serve the concrete examples.
\<close>

definition upper_char :: "uchar \<Rightarrow> uchar" where
  "upper_char c =
     (if 97 \<le> c \<and> c \<le> 122 then c - 32
      else if 224 \<le> c \<and> c \<le> 254 \<and> c \<noteq> 247 then c - 32
      else c)"

definition lower_char :: "uchar \<Rightarrow> uchar" where
  "lower_char c =
     (if 65 \<le> c \<and> c \<le> 90 then c + 32
      else if 192 \<le> c \<and> c \<le> 222 \<and> c \<noteq> 215 then c + 32
      else c)"

definition latin1 :: unicode where
  "latin1 =
     \<lparr> str_upper = map upper_char,
       str_lower = map lower_char,
       str_capitalize = (\<lambda>s. case s of [] \<Rightarrow> [] | c # cs \<Rightarrow> upper_char c # map lower_char cs),
       re_ci = (\<lambda>p c. lower_char p = lower_char c),
       re_digit = (\<lambda>c. 48 \<le> c \<and> c \<le> 57) \<rparr>"

section \<open>Regular expression pieces\<close>

text \<open>
  A literal pattern matched at the start of \<open>s\<close> under \<^verbatim>\<open>IGNORECASE\<close>, and
  \<^verbatim>\<open>re.search\<close> as the leftmost position at which a matcher succeeds.
\<close>

fun ci_prefix :: "unicode \<Rightarrow> ustring \<Rightarrow> ustring \<Rightarrow> bool" where
  "ci_prefix U [] s = True"
| "ci_prefix U (p # ps) [] = False"
| "ci_prefix U (p # ps) (c # cs) = (re_ci U p c \<and> ci_prefix U ps cs)"

fun re_search_bool :: "(ustring \<Rightarrow> bool) \<Rightarrow> ustring \<Rightarrow> bool" where
  "re_search_bool m [] = m []"
| "re_search_bool m (c # cs) = (m (c # cs) \<or> re_search_bool m cs)"

fun re_search_group :: "(ustring \<Rightarrow> ustring option) \<Rightarrow> ustring \<Rightarrow> ustring option" where
  "re_search_group m [] = m []"
| "re_search_group m (c # cs) =
     (case m (c # cs) of Some g \<Rightarrow> Some g | None \<Rightarrow> re_search_group m cs)"

section \<open>Document tree\<close>

text \<open>
  The parsed document (BeautifulSoup): an element has a name (lower case, as the parser
  delivers it) and children; a text node carries its string.  The document itself is the
  element named \<open>[document]\<close>.  An element is handled together with the nodes that follow
  it under its parent, which is what \<^verbatim>\<open>find_next_sibling\<close> walks.
\<close>

datatype node = Text ustring | Elem string "node list"

type_synonym located = "node \<times> node list"

fun is_elem :: "node \<Rightarrow> bool" where
  "is_elem (Elem n cs) = True"
| "is_elem (Text s) = False"

fun elem_name :: "node \<Rightarrow> string" where
  "elem_name (Elem n cs) = n"
| "elem_name (Text s) = []"

fun children :: "node \<Rightarrow> node list" where
  "children (Elem n cs) = cs"
| "children (Text s) = []"

text \<open>\<^verbatim>\<open>find_next_sibling()\<close>, repeatedly: the element siblings that follow, in order.\<close>

definition next_siblings :: "node list \<Rightarrow> node list" where
  "next_siblings after = filter is_elem after"

text \<open>The strings below a node, in document order, and \<^verbatim>\<open>get_text(sep, strip=True)\<close>.\<close>

fun strings_of :: "node \<Rightarrow> ustring list" where
  "strings_of (Text s) = [s]"
| "strings_of (Elem n cs) = concat (map strings_of cs)"

definition get_text :: "ustring \<Rightarrow> node \<Rightarrow> ustring" where
  "get_text sep e = py_join sep (filter (\<lambda>s. s \<noteq> []) (map py_strip (strings_of e)))"

text \<open>The elements below a list of nodes, in document order, each with its followers.\<close>

fun descendants :: "node list \<Rightarrow> located list" where
  "descendants [] = []"
| "descendants (Text s # after) = descendants after"
| "descendants (Elem n cs # after) = (Elem n cs, after) # descendants cs @ descendants after"

definition find_all :: "string list \<Rightarrow> node \<Rightarrow> located list" where
  "find_all names e = filter (\<lambda>(tag, after). elem_name tag \<in> set names) (descendants (children e))"

text \<open>
  \<^verbatim>\<open>find_all(text=True)\<close>: the text nodes in document order, each with its parent
  element (located).
\<close>

fun text_nodes :: "located \<Rightarrow> node list \<Rightarrow> (ustring \<times> located) list" where
  "text_nodes parent [] = []"
| "text_nodes parent (Text s # after) = (s, parent) # text_nodes parent after"
| "text_nodes parent (Elem n cs # after) =
     text_nodes (Elem n cs, after) cs @ text_nodes parent after"

definition find_all_text :: "node \<Rightarrow> (ustring \<times> located) list" where
  "find_all_text soup = text_nodes (soup, []) (children soup)"

section \<open>Extractor A: parse_fei\<close>

definition WEEKDAYS_FULL :: "ustring list" where
  "WEEKDAYS_FULL =
     [u ''M'' @ [197] @ u ''NDAG'', u ''TISDAG'', u ''ONSDAG'', u ''TORSDAG'', u ''FREDAG'',
      u ''L'' @ [214] @ u ''RDAG'', u ''S'' @ [214] @ u ''NDAG'']"

definition stop_words :: "ustring list" where
  "stop_words =
     WEEKDAYS_FULL @ [u ''PRIS OCH '' @ [214] @ u ''PPETTIDER'', u ''VECKANS VEGETARISKA'']"

definition fei_candidates :: "unicode \<Rightarrow> node \<Rightarrow> ustring \<Rightarrow> located list" where
  "fei_candidates U soup weekday_upper =
     filter (\<lambda>(tag, after). str_upper U (py_strip (get_text SP tag)) = weekday_upper)
       (find_all [''h2'', ''h3'', ''h4'', ''strong'', ''p''] soup)"

text \<open>
  The first loop over the siblings: \<open>skip_hops hops sibs\<close> has \<open>next_el\<close> at the head of
  \<open>sibs\<close> (the empty list is \<^verbatim>\<open>None\<close>) and returns the siblings from the element the loop
  stops at.
\<close>

fun skip_hops :: "nat \<Rightarrow> node list \<Rightarrow> node list" where
  "skip_hops hops [] = []"
| "skip_hops hops (next_el # rest) =
     (if hops < 6 \<and> (elem_name next_el = ''br'' \<or> get_text [] next_el = [])
      then skip_hops (Suc hops) rest
      else next_el # rest)"

text \<open>The second loop: the walker is the head of the sibling list.\<close>

fun walk_block :: "unicode \<Rightarrow> nat \<Rightarrow> node list \<Rightarrow> ustring list \<Rightarrow> ustring list" where
  "walk_block U steps [] block_text = block_text"
| "walk_block U steps (walker # rest) block_text =
     (if steps < 12 then
        (let t = get_text SP walker in
         if t \<noteq> [] \<and> str_upper U t \<in> set stop_words then block_text
         else walk_block U (Suc steps) rest (if t \<noteq> [] then block_text @ [t] else block_text))
      else block_text)"

definition list_entries :: "node \<Rightarrow> ustring list" where
  "list_entries ul =
     filter (\<lambda>t. t \<noteq> []) (map (\<lambda>(li, after). get_text SP li) (find_all [''li''] ul))"

definition running_text :: "unicode \<Rightarrow> node list \<Rightarrow> ustring list" where
  "running_text U sibs =
     filter (\<lambda>ln. length ln > 3) (clean_lines (py_join NL (walk_block U 0 sibs [])))"

text \<open>One pass through the body of the loop over the candidates, up to the test of \<open>items\<close>.\<close>

definition fei_visit :: "unicode \<Rightarrow> located \<Rightarrow> ustring list \<Rightarrow> ustring list" where
  "fei_visit U cand items =
     (case skip_hops 0 (next_siblings (snd cand)) of
        [] \<Rightarrow> items
      | next_el # rest \<Rightarrow>
          if elem_name next_el = ''ul'' then items @ list_entries next_el
          else items @ running_text U (next_el # rest))"

fun fei_loop :: "unicode \<Rightarrow> located list \<Rightarrow> ustring list \<Rightarrow> ustring list" where
  "fei_loop U [] items = items"
| "fei_loop U (cand # cands) items =
     (let items' = fei_visit U cand items
      in if items' \<noteq> [] then items' else fei_loop U cands items')"

definition parse_fei :: "unicode \<Rightarrow> node \<Rightarrow> ustring \<Rightarrow> ustring list" where
  "parse_fei U soup weekday_upper = fei_loop U (fei_candidates U soup weekday_upper) []"

text \<open>What one candidate yields on its own.\<close>

definition candidate_items :: "unicode \<Rightarrow> located \<Rightarrow> ustring list" where
  "candidate_items U cand = fei_visit U cand []"

section \<open>Extractor B: parse_cirkeln\<close>

text \<open>The two container patterns, \<^verbatim>\<open>Lunchmeny\<close> and \<^verbatim>\<open>Vecka\s+\d+\<close>, both ignoring case.\<close>

definition search_lunchmeny :: "unicode \<Rightarrow> ustring \<Rightarrow> bool" where
  "search_lunchmeny U s = re_search_bool (ci_prefix U (u ''Lunchmeny'')) s"

fun ws_plus_digit :: "unicode \<Rightarrow> ustring \<Rightarrow> bool" where
  "ws_plus_digit U [] = False"
| "ws_plus_digit U (c # cs) =
     (is_space c \<and> (ws_plus_digit U cs \<or> (case cs of [] \<Rightarrow> False | d # ds \<Rightarrow> re_digit U d)))"

definition match_week :: "unicode \<Rightarrow> ustring \<Rightarrow> bool" where
  "match_week U s = (ci_prefix U (u ''Vecka'') s \<and> ws_plus_digit U (drop 5 s))"

definition search_week :: "unicode \<Rightarrow> ustring \<Rightarrow> bool" where
  "search_week U s = re_search_bool (match_week U) s"

definition cirkeln_container :: "unicode \<Rightarrow> node \<Rightarrow> located option" where
  "cirkeln_container U soup =
     (case find (\<lambda>(tag, parent). search_lunchmeny U (py_strip tag) \<and> search_week U (py_strip tag))
             (find_all_text soup) of
        Some (tag, parent) \<Rightarrow> Some parent
      | None \<Rightarrow>
          find (\<lambda>(el, after). search_lunchmeny U (get_text SP el))
            (find_all [''h1'', ''h2'', ''h3'', ''p'', ''div''] soup))"

fun collect_text :: "nat \<Rightarrow> node list \<Rightarrow> ustring list \<Rightarrow> ustring list" where
  "collect_text steps [] text = text"
| "collect_text steps (cur # rest) text =
     (if steps < 80 then collect_text (Suc steps) rest (text @ [get_text SP cur]) else text)"

definition cirkeln_full :: "unicode \<Rightarrow> node \<Rightarrow> ustring" where
  "cirkeln_full U soup =
     (let text = (case cirkeln_container U soup of
                    None \<Rightarrow> []
                  | Some (container, after) \<Rightarrow>
                      collect_text 0 (container # next_siblings after) [])
      in py_join NL (filter (\<lambda>t. t \<noteq> []) text))"

definition wd_order :: "ustring list" where
  "wd_order =
     [u ''M'' @ [229] @ u ''ndag'', u ''Tisdag'', u ''Onsdag'', u ''Torsdag'', u ''Fredag'']"

text \<open>
  The lookahead of the weekday pattern at the text \<open>s\<close> that remains: one of the five names
  (the whitespace after it is optional), one of the three markers, or \<^verbatim>\<open>$\<close>, which
  holds at the end of the string and before a final line feed.
\<close>

definition lookahead :: "unicode \<Rightarrow> ustring \<Rightarrow> bool" where
  "lookahead U s =
     (list_ex (\<lambda>w. ci_prefix U w s) wd_order
      \<or> ci_prefix U (u ''Kontakt'') s
      \<or> ci_prefix U ([214] @ u ''ppettider'') s
      \<or> ci_prefix U (u ''Veckans vegetariska'') s
      \<or> s = [] \<or> s = [10])"

text \<open>
  The group \<^verbatim>\<open>(.+?)\<close> under \<^verbatim>\<open>DOTALL\<close>, followed by the lookahead: \<open>lazy_dot U g s\<close>
  has captured \<open>g\<close> (at least one character) and extends it by one character at a time
  until the lookahead holds.
\<close>

fun lazy_dot :: "unicode \<Rightarrow> ustring \<Rightarrow> ustring \<Rightarrow> ustring option" where
  "lazy_dot U g [] = (if lookahead U [] then Some g else None)"
| "lazy_dot U g (c # cs) = (if lookahead U (c # cs) then Some g else lazy_dot U (g @ [c]) cs)"

fun dot_plus_lazy :: "unicode \<Rightarrow> ustring \<Rightarrow> ustring option" where
  "dot_plus_lazy U [] = None"
| "dot_plus_lazy U (c # cs) = lazy_dot U [c] cs"

text \<open>
  \<^verbatim>\<open>\s*\<close> before the group: greedy, and giving characters back when the rest of the
  pattern fails.
\<close>

fun ws_star_group :: "unicode \<Rightarrow> ustring \<Rightarrow> ustring option" where
  "ws_star_group U [] = dot_plus_lazy U []"
| "ws_star_group U (c # cs) =
     (if is_space c then
        (case ws_star_group U cs of Some g \<Rightarrow> Some g | None \<Rightarrow> dot_plus_lazy U (c # cs))
      else dot_plus_lazy U (c # cs))"

text \<open>
  The whole pattern at one position.  The day name is matched as a literal, which is
  what the interpolated name is for the names of \<open>WEEKDAYS_FULL\<close>: they contain no
  character that is special in a pattern.
\<close>

definition match_day :: "unicode \<Rightarrow> ustring \<Rightarrow> ustring \<Rightarrow> ustring option" where
  "match_day U day_name_cap s =
     (if ci_prefix U day_name_cap s then ws_star_group U (drop (length day_name_cap) s) else None)"

definition search_day :: "unicode \<Rightarrow> ustring \<Rightarrow> ustring \<Rightarrow> ustring option" where
  "search_day U day_name_cap full = re_search_group (match_day U day_name_cap) full"

definition boilerplate :: "unicode \<Rightarrow> ustring \<Rightarrow> bool" where
  "boilerplate U ln =
     (ci_prefix U (u ''Pris'') ln \<or> ci_prefix U (u ''11:'') ln
      \<or> ci_prefix U (u ''Dagens'') ln \<or> ci_prefix U (u ''Veckans'') ln)"

definition keep_dishes :: "unicode \<Rightarrow> ustring list \<Rightarrow> ustring list" where
  "keep_dishes U lines = filter (\<lambda>ln. length ln > 3 \<and> \<not> boilerplate U ln) lines"

definition parse_cirkeln :: "unicode \<Rightarrow> node \<Rightarrow> ustring \<Rightarrow> ustring list" where
  "parse_cirkeln U soup weekday_upper =
     (case search_day U (str_capitalize U weekday_upper) (cirkeln_full U soup) of
        None \<Rightarrow> []
      | Some block \<Rightarrow> keep_dishes U (clean_lines block))"

section \<open>Menu Assembler\<close>

record DayMenu =
  restaurant_key :: ustring
  items :: "ustring list"

text \<open>
  An exception is modelled by its message, \<^verbatim>\<open>str(e)\<close>.  \<^verbatim>\<open>fetch\<close> talks to the network
  and parses the page; the model takes its outcome for each address as given.
\<close>

datatype exn = Exn ustring

fun exn_str :: "exn \<Rightarrow> ustring" where
  "exn_str (Exn msg) = msg"

type_synonym fetcher = "ustring \<Rightarrow> exn + node"

definition SOURCE_URLS :: "(ustring \<times> ustring) list" where
  "SOURCE_URLS =
     [(u ''FEI'', u ''https://www.fei.se/meny-fei-restaurant-lounge''),
      (u ''Cirkeln'', u ''https://cirkelnstockholm.se/restauranger/restaurang-cirkeln/'')]"

definition DISPLAY_NAMES :: "(ustring \<times> ustring) list" where
  "DISPLAY_NAMES =
     [(u ''FEI'', u ''FEI Restaurang & Lounge''),
      (u ''Cirkeln'', u ''Restaurang Cirkeln'')]"

definition LOGOS :: "(ustring \<times> ustring) list" where
  "LOGOS =
     [(u ''FEI'', u ''https://res.cloudinary.com/emg-prod/image/upload/c_limit,h_100,w_200/v1/institutes/institute10621/logos/logo''),
      (u ''Cirkeln'', u ''https://cirkelnstockholm.se/wp-content/uploads/2021/09/c_restaurang-S-150x150.png'')]"

definition get_menu_for :: "unicode \<Rightarrow> fetcher \<Rightarrow> ustring \<Rightarrow> ustring \<Rightarrow> ustring \<Rightarrow> exn + DayMenu" where
  "get_menu_for U fetch key url weekday_upper =
     (case fetch url of
        Inl e \<Rightarrow> Inl e
      | Inr soup \<Rightarrow>
          Inr \<lparr> restaurant_key = key,
                items = (if str_lower U key = u ''fei'' then parse_fei U soup weekday_upper
                         else if str_lower U key = u ''cirkeln'' then parse_cirkeln U soup weekday_upper
                         else []) \<rparr>)"

definition error_text :: "exn \<Rightarrow> ustring" where
  "error_text e = u ''(fel vid h'' @ [228] @ u ''mtning: '' @ exn_str e @ u '')''"

text \<open>
  The \<^verbatim>\<open>try\<close> statement in the loop of \<^verbatim>\<open>main\<close>: the menu of one source, or the
  entry that the handler builds from the exception.
\<close>

definition try_menu :: "unicode \<Rightarrow> fetcher \<Rightarrow> ustring \<Rightarrow> ustring \<Rightarrow> ustring \<Rightarrow> DayMenu" where
  "try_menu U fetch weekday_upper key url =
     (case get_menu_for U fetch key url weekday_upper of
        Inr dm \<Rightarrow> dm
      | Inl e \<Rightarrow> \<lparr> restaurant_key = key, items = [error_text e] \<rparr>)"

text \<open>The loop of \<^verbatim>\<open>main\<close> over the sources.\<close>

fun assemble :: "unicode \<Rightarrow> fetcher \<Rightarrow> ustring \<Rightarrow> (ustring \<times> ustring) list \<Rightarrow> DayMenu list \<Rightarrow> DayMenu list" where
  "assemble U fetch weekday_upper [] day_menus = day_menus"
| "assemble U fetch weekday_upper ((key, url) # sources) day_menus =
     assemble U fetch weekday_upper sources (day_menus @ [try_menu U fetch weekday_upper key url])"

definition main_day_menus :: "unicode \<Rightarrow> fetcher \<Rightarrow> ustring \<Rightarrow> DayMenu list" where
  "main_day_menus U fetch weekday_upper = assemble U fetch weekday_upper SOURCE_URLS []"

section \<open>Page Renderer\<close>

text \<open>
  \<^verbatim>\<open>re.sub(r"\s*SEP\s*", "<br>", text)\<close> for a separator character that is not whitespace:
  a match starts where a (possibly empty) run of whitespace is followed by the separator,
  and takes the whitespace after it as well.
\<close>

function re_sub_sep :: "uchar \<Rightarrow> ustring \<Rightarrow> ustring" where
  "re_sub_sep sep [] = []"
| "re_sub_sep sep (c # cs) =
     (case dropWhile is_space (c # cs) of
        [] \<Rightarrow> c # re_sub_sep sep cs
      | d # ds \<Rightarrow>
          if d = sep then u ''<br>'' @ re_sub_sep sep (dropWhile is_space ds)
          else c # re_sub_sep sep cs)"
  by pat_completeness auto
termination
proof (relation "measure (\<lambda>(sep, s). length s)")
  show "wf (measure (\<lambda>(sep, s). length s))" by simp
next
  fix sep :: uchar and c :: uchar and cs :: ustring
  show "((sep, cs), (sep, c # cs)) \<in> measure (\<lambda>(sep, s). length s)" by simp
next
  fix sep :: uchar and c :: uchar and cs :: ustring and d :: uchar and ds :: ustring
  assume eq: "dropWhile is_space (c # cs) = d # ds"
  have "length (d # ds) \<le> length (c # cs)"
    unfolding eq [symmetric] by (rule length_dropWhile_le)
  moreover have "length (dropWhile is_space ds) \<le> length ds"
    by (rule length_dropWhile_le)
  ultimately show "((sep, dropWhile is_space ds), (sep, c # cs)) \<in> measure (\<lambda>(sep, s). length s)"
    by simp
next
  fix sep :: uchar and c :: uchar and cs :: ustring and d :: uchar and ds :: ustring
  show "((sep, cs), (sep, c # cs)) \<in> measure (\<lambda>(sep, s). length s)" by simp
qed

definition force_linebreaks :: "ustring \<Rightarrow> ustring" where
  "force_linebreaks text = re_sub_sep 124 (re_sub_sep 47 text)"

definition dict_get :: "(ustring \<times> ustring) list \<Rightarrow> ustring \<Rightarrow> ustring \<Rightarrow> ustring" where
  "dict_get d key dflt = (case map_of d key of Some v \<Rightarrow> v | None \<Rightarrow> dflt)"

definition html_head :: "ustring \<Rightarrow> ustring" where
  \<open>html_head weekday_upper =
       u ''<!doctype html>'' @ NL @
       u ''<meta charset="utf-8">'' @ NL @
       u ''<meta name="viewport" content="width=device-width,initial-scale=1">'' @ NL @
       u ''<meta http-equiv="refresh" content="1800">'' @ NL @
       u ''<title>Dagens lunch</title>'' @ NL @
       u ''<style>'' @ NL @
       u ''  :root { --fg:#111; --muted:#555; --card:#fff; --bg:#f6f7f9; }'' @ NL @
       u ''  @media (prefers-color-scheme: dark) {'' @ NL @
       u ''    :root { --fg:#eaeaea; --muted:#a0a0a0; --card:#171717; --bg:#0e0f11; }'' @ NL @
       u ''  }'' @ NL @
       u ''  body{font-family:system-ui,-apple-system,Segoe UI,Roboto,Helvetica,Arial,sans-serif;background:var(--bg);color:var(--fg);margin:0}'' @ NL @
       u ''  .wrap{max-width:760px;margin:32px auto;padding:0 16px}'' @ NL @
       u ''  .card{background:var(--card);border-radius:16px;box-shadow:0 6px 24px rgba(0,0,0,.08);padding:24px}'' @ NL @
       u ''  h1{margin:0 0 6px 0;font-size:28px}'' @ NL @
       u ''  h2{margin:0 0 16px 0;font-size:18px;letter-spacing:1px;color:var(--muted)}'' @ NL @
       u ''  .rest{padding:14px 0;border-top:1px solid rgba(128,128,128,.25)}'' @ NL @
       u ''  .rest:first-of-type{border-top:none}'' @ NL @
       u ''  .head{display:flex;align-items:center;gap:12px;margin-bottom:6px}'' @ NL @
       u ''  .logo{width:28px;height:28px;object-fit:contain;border-radius:6px;flex:0 0 28px;filter:contrast(1.1)}'' @ NL @
       u ''  .name{font-weight:700}'' @ NL @
       u ''  .dish{margin:4px 0;line-height:1.5}'' @ NL @
       u ''  .footer{margin-top:10px;color:var(--muted);font-size:12px}'' @ NL @
       u ''</style>'' @ NL @
       u ''<div class="wrap">'' @ NL @
       u ''  <div class="card">'' @ NL @
       u ''    <h1>Dagens lunch by PMO IT</h1>'' @ NL @
       u ''    <h2>'' @ weekday_upper @ u ''</h2>'' @ NL\<close>

definition html_foot :: "ustring \<Rightarrow> ustring" where
  \<open>html_foot updated_at =
       u ''    <div class="footer">Uppdaterad: '' @ updated_at @ u '' '' @ [183] @
       u '' Tidszon: Europe/Stockholm</div>'' @ NL @
       u ''  </div>'' @ NL @
       u ''</div>'' @ NL\<close>

definition dish_line :: "ustring \<Rightarrow> ustring" where
  "dish_line dish = u ''      <div class='dish'>'' @ force_linebreaks dish @ u ''</div>'' @ NL"

definition placeholder_line :: "unicode \<Rightarrow> ustring \<Rightarrow> ustring" where
  "placeholder_line U weekday_upper =
     u ''      <div class='dish'><em>ingen meny hittad f'' @ [246] @ u ''r '' @
     str_capitalize U weekday_upper @ u ''</em></div>'' @ NL"

fun render_dishes :: "ustring list \<Rightarrow> ustring \<Rightarrow> ustring" where
  "render_dishes [] html = html"
| "render_dishes (dish # dishes) html = render_dishes dishes (html @ dish_line dish)"

definition card_head :: "ustring \<Rightarrow> ustring" where
  "card_head key =
     (let name = dict_get DISPLAY_NAMES key key;
          logo = dict_get LOGOS key []
      in u ''    <div class='rest'>'' @ NL @ u ''      <div class='head'>'' @ NL @
         (if logo \<noteq> [] then
            u ''        <img class='logo' src='' @ [39] @ logo @ [39] @ u '' alt='' @ [39] @
            name @ u '' logotyp'' @ [39] @ u ''>'' @ NL
          else []) @
         u ''        <div class='name'>'' @ name @ u ''</div>'' @ NL @ u ''      </div>'' @ NL)"

text \<open>One pass through the body of the loop over the menus.\<close>

definition render_menu :: "unicode \<Rightarrow> ustring \<Rightarrow> DayMenu \<Rightarrow> ustring \<Rightarrow> ustring" where
  "render_menu U weekday_upper dm html =
     (let html1 = html @ card_head (restaurant_key dm);
          html2 = (if items dm \<noteq> [] then render_dishes (items dm) html1
                   else html1 @ placeholder_line U weekday_upper)
      in html2 @ u ''    </div>'' @ NL)"

fun render_menus :: "unicode \<Rightarrow> ustring \<Rightarrow> DayMenu list \<Rightarrow> ustring \<Rightarrow> ustring" where
  "render_menus U weekday_upper [] html = html"
| "render_menus U weekday_upper (dm # day_menus) html =
     render_menus U weekday_upper day_menus (render_menu U weekday_upper dm html)"

text \<open>\<open>updated_at\<close> is the formatted current time, read from the clock by the source.\<close>

definition render_html :: "unicode \<Rightarrow> ustring \<Rightarrow> ustring \<Rightarrow> DayMenu list \<Rightarrow> ustring" where
  "render_html U updated_at weekday_upper day_menus =
     render_menus U weekday_upper day_menus (html_head weekday_upper) @ html_foot updated_at"

section \<open>Notions used in the properties\<close>

text \<open>
  A sibling ends the running text block when its text is non-empty and, upper-cased, is
  one of the stop words (the test of the second loop of \<open>parse_fei\<close>).
\<close>

definition is_boundary :: "unicode \<Rightarrow> node \<Rightarrow> bool" where
  "is_boundary U e = (get_text SP e \<noteq> [] \<and> str_upper U (get_text SP e) \<in> set stop_words)"

text \<open>
  The splitting of a dish text as the specification words it: in one pass, every slash
  and every pipe, together with the whitespace around it, becomes a forced line break.
\<close>

function spec_linebreaks :: "ustring \<Rightarrow> ustring" where
  "spec_linebreaks [] = []"
| "spec_linebreaks (c # cs) =
     (case dropWhile is_space (c # cs) of
        [] \<Rightarrow> c # spec_linebreaks cs
      | d # ds \<Rightarrow>
          if d = 47 \<or> d = 124 then u ''<br>'' @ spec_linebreaks (dropWhile is_space ds)
          else c # spec_linebreaks cs)"
  by pat_completeness auto
termination
proof (relation "measure length")
  show "wf (measure length)" by simp
next
  fix c :: uchar and cs :: ustring
  show "(cs, c # cs) \<in> measure length" by simp
next
  fix c :: uchar and cs :: ustring and d :: uchar and ds :: ustring
  assume eq: "dropWhile is_space (c # cs) = d # ds"
  have "length (d # ds) \<le> length (c # cs)"
    unfolding eq [symmetric] by (rule length_dropWhile_le)
  moreover have "length (dropWhile is_space ds) \<le> length ds"
    by (rule length_dropWhile_le)
  ultimately show "(dropWhile is_space ds, c # cs) \<in> measure length"
    by simp
next
  fix c :: uchar and cs :: ustring and d :: uchar and ds :: ustring
  show "(cs, c # cs) \<in> measure length" by simp
qed

text \<open>
  Positions in the combined text.  \<open>starts_in U name pre tail\<close>: the name matches, ignoring
  case, at some position inside \<open>pre\<close> of the text \<open>pre @ tail\<close>.  \<open>stop_in U block tail\<close>: the
  lookahead of the weekday pattern holds at some position inside \<open>block\<close> of the text
  \<open>block @ tail\<close>.
\<close>

fun starts_in :: "unicode \<Rightarrow> ustring \<Rightarrow> ustring \<Rightarrow> ustring \<Rightarrow> bool" where
  "starts_in U name [] tail = False"
| "starts_in U name (c # pre) tail = (ci_prefix U name (c # pre @ tail) \<or> starts_in U name pre tail)"

fun stop_in :: "unicode \<Rightarrow> ustring \<Rightarrow> ustring \<Rightarrow> bool" where
  "stop_in U [] tail = False"
| "stop_in U (c # block) tail = (lookahead U (c # block @ tail) \<or> stop_in U block tail)"

text \<open>
  The capture as claim C2 words it, for comparison with \<open>search_day\<close>: the text after the
  first occurrence of the capitalized name, up to the first place where another of the
  five weekday names or one of the three markers begins, or to the end.
\<close>

definition claimed_stop :: "ustring \<Rightarrow> ustring \<Rightarrow> bool" where
  "claimed_stop name s =
     (list_ex (\<lambda>w. w \<noteq> name \<and> prefix w s) wd_order
      \<or> prefix (u ''Kontakt'') s
      \<or> prefix ([214] @ u ''ppettider'') s
      \<or> prefix (u ''Veckans vegetariska'') s
      \<or> s = [])"

fun claimed_until :: "ustring \<Rightarrow> ustring \<Rightarrow> ustring" where
  "claimed_until name [] = []"
| "claimed_until name (c # cs) =
     (if claimed_stop name (c # cs) then [] else c # claimed_until name cs)"

fun claimed_block :: "ustring \<Rightarrow> ustring \<Rightarrow> ustring option" where
  "claimed_block name [] = None"
| "claimed_block name (c # cs) =
     (if prefix name (c # cs) then Some (claimed_until name (drop (length name) (c # cs)))
      else claimed_block name cs)"

definition claimed_cirkeln :: "unicode \<Rightarrow> node \<Rightarrow> ustring \<Rightarrow> ustring list" where
  "claimed_cirkeln U soup weekday_upper =
     (case claimed_block (str_capitalize U weekday_upper) (cirkeln_full U soup) of
        None \<Rightarrow> []
      | Some block \<Rightarrow> keep_dishes U (clean_lines block))"

text \<open>Example documents, and the outcome of a fetch that fails for the first source.\<close>

definition ex_entries :: "node list" where
  "ex_entries =
     [Elem ''li'' [Text (u ''Soppa'')], Elem ''li'' [Text (u ''Sallad'')],
      Elem ''li'' [Text (u ''Kaffe'')]]"

definition ex_two_headings :: node where
  "ex_two_headings =
     Elem ''[document]''
       [Elem ''h3'' [Text (u ''TISDAG'')],
        Elem ''p'' [Text (u ''Pasta carbonara'')],
        Elem ''h3'' [Text (u ''TISDAG'')],
        Elem ''ul'' ex_entries]"

definition ex_three_headings :: node where
  "ex_three_headings =
     Elem ''[document]''
       [Elem ''div'' [Elem ''h3'' [Text (u ''TISDAG'')]],
        Elem ''h3'' [Text (u '' Tisdag '')],
        Elem ''br'' [],
        Text (u ''loose text''),
        Elem ''p'' [Text [32, 10]],
        Elem ''ul'' ex_entries,
        Elem ''p'' [Elem ''strong'' [Text (u ''tisdag'')]],
        Elem ''p'' [Text (u ''Later dish'')]]"

definition ex_lunch :: node where
  "ex_lunch =
     Elem ''[document]''
       [Elem ''div''
          [Elem ''h2'' [Text (u ''Lunchmeny Vecka 42'')],
           Elem ''p'' [Text (u ''Vi har tisdag lunch'')],
           Elem ''p'' [Text (u ''Tisdag'')],
           Elem ''p'' [Text (u ''Pasta carbonara'')],
           Elem ''p'' [Text (u ''Onsdag'')],
           Elem ''p'' [Text (u ''Fisksoppa'')]]]"

definition ex_week :: node where
  "ex_week =
     Elem ''[document]''
       [Elem ''div''
          [Elem ''h2'' [Text (u ''Lunchmeny Vecka 42'')],
           Elem ''p'' [Text (u ''Tisdag'')],
           Elem ''p'' [Text (u ''Pasta carbonara'')],
           Elem ''p'' [Text (u ''Pris 95 kr'')],
           Elem ''p'' [Text (u ''11:00 - 14:00'')],
           Elem ''p'' [Text (u ''dagens soppa'')],
           Elem ''p'' [Text (u ''- Fisk / Chips'')],
           Elem ''p'' [Text (u ''ok'')],
           Elem ''p'' [Text (u ''Onsdag'')],
           Elem ''p'' [Text (u ''Fisksoppa'')]]]"

definition ex_fetch :: fetcher where
  "ex_fetch url =
     (if url = u ''https://www.fei.se/meny-fei-restaurant-lounge''
      then Inl (Exn (u ''404 Client Error: Not Found for url: https://www.fei.se/meny-fei-restaurant-lounge''))
      else Inr (Elem ''[document]'' []))"

section \<open>Properties of the Text Normalizer\<close>

lemma is_space_32 [simp]: "is_space 32"
  by (simp add: is_space_def)

lemma ws_collapsed_Cons: "ws_collapsed (c # cs) \<Longrightarrow> ws_collapsed cs"
  by (cases cs) (auto split: if_splits)

lemma ws_collapsed_dropWhile: "ws_collapsed s \<Longrightarrow> ws_collapsed (dropWhile P s)"
  by (induction s) (auto dest: ws_collapsed_Cons)

lemma ws_collapsed_prefix: "ws_collapsed (xs @ ys) \<Longrightarrow> ws_collapsed xs"
proof (induction xs rule: ws_collapsed.induct)
  case 1
  then show ?case by simp
next
  case (2 c)
  then show ?case by (cases ys) (auto split: if_splits)
next
  case (3 c d cs)
  then show ?case by (auto split: if_splits)
qed

lemma dropWhile_space_hd: "dropWhile is_space cs = d # ds \<Longrightarrow> \<not> is_space d"
  using hd_dropWhile [of is_space cs] by auto

lemma ws_collapsed_re_sub_ws: "ws_collapsed (re_sub_ws s)"
proof (induction s rule: re_sub_ws.induct)
  case 1
  then show ?case by simp
next
  case (2 c cs)
  show ?case
  proof (cases "is_space c")
    case True
    note sp = this
    show ?thesis
    proof (cases "dropWhile is_space cs")
      case Nil
      have "re_sub_ws (c # cs) = 32 # re_sub_ws (dropWhile is_space cs)"
        using sp by simp
      then have "re_sub_ws (c # cs) = [32]" unfolding Nil by simp
      then show ?thesis by simp
    next
      case (Cons d ds)
      then have nd: "\<not> is_space d" by (rule dropWhile_space_hd)
      from 2(1) [OF sp] Cons have "ws_collapsed (re_sub_ws (d # ds))" by simp
      with sp nd Cons show ?thesis by simp
    qed
  next
    case False
    with 2(2) have ih: "ws_collapsed (re_sub_ws cs)" by simp
    from False ih show ?thesis by (cases "re_sub_ws cs") auto
  qed
qed

lemma strip_chars_prefix:
  "\<exists>zs. dropWhile (\<lambda>c. c \<in> set chars) s = py_strip_chars chars s @ zs"
proof -
  let ?P = "\<lambda>c. c \<in> set chars"
  let ?d = "dropWhile ?P s"
  have "rev ?d = takeWhile ?P (rev ?d) @ dropWhile ?P (rev ?d)" by simp
  then have "?d = rev (dropWhile ?P (rev ?d)) @ rev (takeWhile ?P (rev ?d))"
    by (metis rev_append rev_rev_ident)
  then show ?thesis unfolding py_strip_chars_def by blast
qed

lemma ws_collapsed_strip_chars:
  assumes "ws_collapsed s"
  shows "ws_collapsed (py_strip_chars chars s)"
proof -
  from assms have "ws_collapsed (dropWhile (\<lambda>c. c \<in> set chars) s)"
    by (rule ws_collapsed_dropWhile)
  moreover obtain zs where "dropWhile (\<lambda>c. c \<in> set chars) s = py_strip_chars chars s @ zs"
    using strip_chars_prefix by blast
  ultimately show ?thesis by (simp add: ws_collapsed_prefix)
qed

lemma strip_chars_last:
  assumes "py_strip_chars chars s \<noteq> []"
  shows "last (py_strip_chars chars s) \<notin> set chars"
proof -
  let ?P = "\<lambda>c. c \<in> set chars"
  let ?r = "dropWhile ?P (rev (dropWhile ?P s))"
  from assms have ne: "?r \<noteq> []" by (simp add: py_strip_chars_def)
  then have "\<not> ?P (hd ?r)" by (rule hd_dropWhile)
  moreover have "last (py_strip_chars chars s) = hd ?r"
    using ne by (simp add: py_strip_chars_def last_rev)
  ultimately show ?thesis by simp
qed

lemma last_dropWhile_nonempty: "dropWhile P xs \<noteq> [] \<Longrightarrow> last (dropWhile P xs) = last xs"
  by (induction xs) (auto split: if_splits)

lemma strip_chars_hd:
  assumes "py_strip_chars chars s \<noteq> []"
  shows "hd (py_strip_chars chars s) \<notin> set chars"
proof -
  let ?P = "\<lambda>c. c \<in> set chars"
  let ?d = "dropWhile ?P s"
  let ?r = "dropWhile ?P (rev ?d)"
  from assms have ne: "?r \<noteq> []" by (simp add: py_strip_chars_def)
  then have dne: "?d \<noteq> []" by (metis dropWhile.simps(1) rev.simps(1))
  have "hd (py_strip_chars chars s) = last ?r"
    using ne by (simp add: py_strip_chars_def hd_rev)
  also have "\<dots> = last (rev ?d)" using ne by (rule last_dropWhile_nonempty)
  also have "\<dots> = hd ?d" using dne by (simp add: last_rev)
  finally have "hd (py_strip_chars chars s) = hd ?d" .
  moreover have "\<not> ?P (hd ?d)" using dne by (rule hd_dropWhile)
  ultimately show ?thesis by simp
qed

lemmas normalizer_eval =
  clean_lines_def normalize_line_def py_splitlines_def py_strip_chars_def
  DECORATION_def is_space_def is_linebreak_def u_def NL_def

text \<open>
  Claim C4.  Every line that \<open>clean_lines\<close> returns is non-empty, is whitespace-collapsed
  (its only whitespace characters are single spaces) and neither begins nor ends with a
  character of \<open>DECORATION\<close>; the result is the sequence of the normalized physical lines,
  in their order, without those that became empty.
\<close>

theorem clean_lines_normalized:
  "(\<forall>ln \<in> set (clean_lines text).
       ln \<noteq> [] \<and> ws_collapsed ln \<and> hd ln \<notin> set DECORATION \<and> last ln \<notin> set DECORATION)
   \<and> clean_lines text = filter (\<lambda>ln. ln \<noteq> []) (map normalize_line (py_splitlines text))"
proof (intro conjI ballI)
  fix ln
  assume "ln \<in> set (clean_lines text)"
  then obtain raw where ln: "ln = normalize_line raw" and ne: "ln \<noteq> []"
    by (auto simp: clean_lines_def)
  show "ln \<noteq> []" by (rule ne)
  show "ws_collapsed ln"
    unfolding ln normalize_line_def
    by (rule ws_collapsed_strip_chars) (rule ws_collapsed_re_sub_ws)
  show "hd ln \<notin> set DECORATION"
    using ne unfolding ln normalize_line_def by (rule strip_chars_hd)
  show "last ln \<notin> set DECORATION"
    using ne unfolding ln normalize_line_def by (rule strip_chars_last)
next
  show "clean_lines text = filter (\<lambda>ln. ln \<noteq> []) (map normalize_line (py_splitlines text))"
    by (simp add: clean_lines_def)
qed

text \<open>
  The theorem at a text of three physical lines with mixed whitespace, bullets and dashes;
  the middle line consists of decoration only and disappears.
\<close>

theorem clean_lines_normalized_witness:
  "clean_lines (u ''  * Fish  and chips. '' @ NL @ u '' - - '' @ NL @ [9, 8226, 32] @ u ''Soup'' @ [8212])
     = [u ''Fish and chips'', u ''Soup'']
   \<and> ws_collapsed (u ''Fish and chips'') \<and> ws_collapsed (u ''Soup'')
   \<and> hd (u ''Fish and chips'') \<notin> set DECORATION \<and> last (u ''Fish and chips'') \<notin> set DECORATION
   \<and> hd (u ''Soup'') \<notin> set DECORATION \<and> last (u ''Soup'') \<notin> set DECORATION"
proof -
  let ?t = "u ''  * Fish  and chips. '' @ NL @ u '' - - '' @ NL @ [9, 8226, 32] @ u ''Soup'' @ [8212]"
  have ev: "clean_lines ?t = [u ''Fish and chips'', u ''Soup'']"
    by (simp add: normalizer_eval)
  from clean_lines_normalized [of ?t] show ?thesis
    unfolding ev by simp
qed

section \<open>Properties of Extractor A\<close>

lemmas tree_eval =
  find_all_def get_text_def py_strip_def next_siblings_def SP_def
  latin1_def upper_char_def lower_char_def Let_def

lemmas fei_eval =
  parse_fei_def fei_candidates_def fei_visit_def list_entries_def running_text_def
  candidate_items_def stop_words_def WEEKDAYS_FULL_def

lemma fei_visit_append: "fei_visit U cand acc = acc @ candidate_items U cand"
  by (simp add: fei_visit_def candidate_items_def split: list.splits)

lemma fei_loop_find:
  "fei_loop U cands [] =
     (case find (\<lambda>c. candidate_items U c \<noteq> []) cands of
        None \<Rightarrow> [] | Some c \<Rightarrow> candidate_items U c)"
  by (induction cands) (simp_all add: fei_visit_append Let_def)

lemma find_first:
  "\<forall>c \<in> set pre. \<not> P c \<Longrightarrow> P x \<Longrightarrow> find P (pre @ x # post) = Some x"
  by (induction pre) auto

lemma find_none: "\<forall>c \<in> set xs. \<not> P c \<Longrightarrow> find P xs = None"
  by (induction xs) auto

lemma ex_entries_texts:
  "list_entries (Elem ''ul'' ex_entries) = [u ''Soppa'', u ''Sallad'', u ''Kaffe'']"
  by (simp add: ex_entries_def list_entries_def tree_eval u_def is_space_def)

lemma ex_three_candidates:
  "fei_candidates latin1 ex_three_headings (u ''TISDAG'') =
     [(Elem ''h3'' [Text (u ''TISDAG'')], [])] @
      (Elem ''h3'' [Text (u '' Tisdag '')],
        [Elem ''br'' [], Text (u ''loose text''), Elem ''p'' [Text [32, 10]], Elem ''ul'' ex_entries,
         Elem ''p'' [Elem ''strong'' [Text (u ''tisdag'')]], Elem ''p'' [Text (u ''Later dish'')]]) #
      [(Elem ''p'' [Elem ''strong'' [Text (u ''tisdag'')]], [Elem ''p'' [Text (u ''Later dish'')]]),
       (Elem ''strong'' [Text (u ''tisdag'')], [])]"
  by (simp add: ex_three_headings_def ex_entries_def fei_candidates_def tree_eval u_def is_space_def)

lemma ex_three_first_empty:
  "candidate_items latin1 (Elem ''h3'' [Text (u ''TISDAG'')], []) = []"
  by (simp add: fei_eval tree_eval)

lemma ex_three_second:
  "candidate_items latin1
     (Elem ''h3'' [Text (u '' Tisdag '')],
        [Elem ''br'' [], Text (u ''loose text''), Elem ''p'' [Text [32, 10]], Elem ''ul'' ex_entries,
         Elem ''p'' [Elem ''strong'' [Text (u ''tisdag'')]], Elem ''p'' [Text (u ''Later dish'')]])
     = [u ''Soppa'', u ''Sallad'', u ''Kaffe'']"
  by (simp add: ex_entries_def fei_eval tree_eval normalizer_eval)

text \<open>
  Claim C1.  \<open>parse_fei\<close> returns what the first candidate (in document order) with a
  non-empty item list yields; the candidates after it contribute nothing; and when no
  candidate yields an item the result is empty.
\<close>

theorem parse_fei_first_match:
  "parse_fei U soup weekday_upper =
     (case find (\<lambda>c. candidate_items U c \<noteq> []) (fei_candidates U soup weekday_upper) of
        None \<Rightarrow> []
      | Some c \<Rightarrow> candidate_items U c)
   \<and> (\<forall>pre c post.
         fei_candidates U soup weekday_upper = pre @ c # post
         \<and> (\<forall>c' \<in> set pre. candidate_items U c' = []) \<and> candidate_items U c \<noteq> []
         \<longrightarrow> parse_fei U soup weekday_upper = candidate_items U c)
   \<and> ((\<forall>c \<in> set (fei_candidates U soup weekday_upper). candidate_items U c = [])
         \<longrightarrow> parse_fei U soup weekday_upper = [])"
proof (intro conjI allI impI)
  show "parse_fei U soup weekday_upper =
     (case find (\<lambda>c. candidate_items U c \<noteq> []) (fei_candidates U soup weekday_upper) of
        None \<Rightarrow> [] | Some c \<Rightarrow> candidate_items U c)"
    by (simp add: parse_fei_def fei_loop_find)
next
  fix pre c post
  assume h: "fei_candidates U soup weekday_upper = pre @ c # post
         \<and> (\<forall>c' \<in> set pre. candidate_items U c' = []) \<and> candidate_items U c \<noteq> []"
  then have "find (\<lambda>c. candidate_items U c \<noteq> []) (pre @ c # post) = Some c"
    by (intro find_first) auto
  with h show "parse_fei U soup weekday_upper = candidate_items U c"
    by (simp add: parse_fei_def fei_loop_find)
next
  assume "\<forall>c \<in> set (fei_candidates U soup weekday_upper). candidate_items U c = []"
  then have "find (\<lambda>c. candidate_items U c \<noteq> []) (fei_candidates U soup weekday_upper) = None"
    by (intro find_none) auto
  then show "parse_fei U soup weekday_upper = []"
    by (simp add: parse_fei_def fei_loop_find)
qed

text \<open>
  The theorem at a document with four candidates: a heading alone in its block (it yields
  nothing), a heading followed by a list, and a paragraph with its emphasised text, the
  first of which is followed by a dish line that is never consulted.
\<close>

theorem parse_fei_first_match_witness:
  "candidate_items latin1 (Elem ''h3'' [Text (u ''TISDAG'')], []) = []
   \<and> parse_fei latin1 ex_three_headings (u ''TISDAG'') = [u ''Soppa'', u ''Sallad'', u ''Kaffe'']"
proof -
  let ?c = "(Elem ''h3'' [Text (u '' Tisdag '')],
        [Elem ''br'' [], Text (u ''loose text''), Elem ''p'' [Text [32, 10]], Elem ''ul'' ex_entries,
         Elem ''p'' [Elem ''strong'' [Text (u ''tisdag'')]], Elem ''p'' [Text (u ''Later dish'')]])"
  have ne: "candidate_items latin1 ?c \<noteq> []"
    by (simp add: ex_three_second)
  have "parse_fei latin1 ex_three_headings (u ''TISDAG'') = candidate_items latin1 ?c"
    by (rule parse_fei_first_match [THEN conjunct2, THEN conjunct1, rule_format,
          of _ _ _ "[(Elem ''h3'' [Text (u ''TISDAG'')], [])]" ?c
             "[(Elem ''p'' [Elem ''strong'' [Text (u ''tisdag'')]], [Elem ''p'' [Text (u ''Later dish'')]]),
               (Elem ''strong'' [Text (u ''tisdag'')], [])]"])
       (simp add: ex_three_candidates ex_three_first_empty ne)
  then show ?thesis
    by (simp add: ex_three_second ex_three_first_empty)
qed

lemma skip_hops_skipped:
  "\<forall>e \<in> set skipped. elem_name e = ''br'' \<or> get_text [] e = [] \<Longrightarrow>
   hops + length skipped \<le> 6 \<Longrightarrow>
   \<not> (elem_name x = ''br'' \<or> get_text [] x = []) \<Longrightarrow>
   skip_hops hops (skipped @ x # rest) = x # rest"
  by (induction skipped arbitrary: hops) auto

lemma candidate_items_ul:
  assumes "next_siblings after = skipped @ Elem ''ul'' kids # rest"
    and "length skipped \<le> 6"
    and "\<forall>e \<in> set skipped. elem_name e = ''br'' \<or> get_text [] e = []"
    and "get_text [] (Elem ''ul'' kids) \<noteq> []"
  shows "candidate_items U (tag, after) = list_entries (Elem ''ul'' kids)"
proof -
  have "skip_hops 0 (skipped @ Elem ''ul'' kids # rest) = Elem ''ul'' kids # rest"
    using assms(2,3,4) by (intro skip_hops_skipped) auto
  then show ?thesis
    by (simp add: candidate_items_def fei_visit_def assms(1))
qed

text \<open>
  Claim C5, as stated, fails: a document may hold a weekday heading followed by a list and
  still return something else, because an earlier heading of the same weekday already
  yielded items.  Here the first heading is followed by a paragraph, the second by the
  list; the paragraph is returned.
\<close>

theorem parse_fei_list_counterexample:
  "fei_candidates latin1 ex_two_headings (u ''TISDAG'') =
     [(Elem ''h3'' [Text (u ''TISDAG'')],
        [Elem ''p'' [Text (u ''Pasta carbonara'')], Elem ''h3'' [Text (u ''TISDAG'')],
         Elem ''ul'' ex_entries]),
      (Elem ''h3'' [Text (u ''TISDAG'')], [Elem ''ul'' ex_entries])]
   \<and> skip_hops 0 (next_siblings [Elem ''ul'' ex_entries]) = [Elem ''ul'' ex_entries]
   \<and> list_entries (Elem ''ul'' ex_entries) = [u ''Soppa'', u ''Sallad'', u ''Kaffe'']
   \<and> parse_fei latin1 ex_two_headings (u ''TISDAG'') = [u ''Pasta carbonara'']
   \<and> parse_fei latin1 ex_two_headings (u ''TISDAG'') \<noteq> list_entries (Elem ''ul'' ex_entries)"
proof -
  have a: "fei_candidates latin1 ex_two_headings (u ''TISDAG'') =
     [(Elem ''h3'' [Text (u ''TISDAG'')],
        [Elem ''p'' [Text (u ''Pasta carbonara'')], Elem ''h3'' [Text (u ''TISDAG'')],
         Elem ''ul'' ex_entries]),
      (Elem ''h3'' [Text (u ''TISDAG'')], [Elem ''ul'' ex_entries])]"
    by (simp add: ex_two_headings_def ex_entries_def fei_candidates_def tree_eval u_def is_space_def)
  have b: "skip_hops 0 (next_siblings [Elem ''ul'' ex_entries]) = [Elem ''ul'' ex_entries]"
    by (simp add: ex_entries_def tree_eval u_def is_space_def)
  have c: "parse_fei latin1 ex_two_headings (u ''TISDAG'') = [u ''Pasta carbonara'']"
    by (simp add: ex_two_headings_def ex_entries_def fei_eval tree_eval normalizer_eval)
  have d: "[u ''Pasta carbonara''] \<noteq> [u ''Soppa'', u ''Sallad'', u ''Kaffe'']"
    by simp
  show ?thesis
    unfolding c ex_entries_texts using a b d by simp
qed

text \<open>
  Claim C5, amended.  Let a candidate be preceded only by candidates that yield nothing,
  and let its element siblings begin with at most six skipped ones (line breaks or
  elements without text) followed by a list container with text.  Then \<open>parse_fei\<close> returns
  exactly the non-empty trimmed texts of the list's entries, in document order, provided
  the list has such an entry or no later candidate yields anything.
\<close>

theorem parse_fei_list:
  assumes cands: "fei_candidates U soup weekday_upper = pre @ (tag, after) # post"
    and pre: "\<forall>c \<in> set pre. candidate_items U c = []"
    and sibs: "next_siblings after = skipped @ Elem ''ul'' kids # rest"
    and bound: "length skipped \<le> 6"
    and skipped: "\<forall>e \<in> set skipped. elem_name e = ''br'' \<or> get_text [] e = []"
    and ul: "get_text [] (Elem ''ul'' kids) \<noteq> []"
    and later: "list_entries (Elem ''ul'' kids) \<noteq> [] \<or> (\<forall>c \<in> set post. candidate_items U c = [])"
  shows "parse_fei U soup weekday_upper = list_entries (Elem ''ul'' kids)"
proof -
  let ?P = "\<lambda>c. candidate_items U c \<noteq> []"
  have ci: "candidate_items U (tag, after) = list_entries (Elem ''ul'' kids)"
    using sibs bound skipped ul by (rule candidate_items_ul)
  have res: "parse_fei U soup weekday_upper =
      (case find ?P (pre @ (tag, after) # post) of None \<Rightarrow> [] | Some c \<Rightarrow> candidate_items U c)"
    by (simp add: parse_fei_def fei_loop_find cands)
  show ?thesis
  proof (cases "list_entries (Elem ''ul'' kids) = []")
    case False
    with ci have "?P (tag, after)" by simp
    with pre have "find ?P (pre @ (tag, after) # post) = Some (tag, after)"
      by (intro find_first) auto
    with res ci show ?thesis by simp
  next
    case True
    with later have "\<forall>c \<in> set post. candidate_items U c = []" by simp
    with pre ci True have "\<forall>c \<in> set (pre @ (tag, after) # post). \<not> ?P c" by auto
    then have "find ?P (pre @ (tag, after) # post) = None" by (rule find_none)
    with res True show ?thesis by simp
  qed
qed

text \<open>
  The amended theorem at the document with four candidates: the second heading is
  followed by a line break and a blank paragraph, then by the list of three entries.
\<close>

theorem parse_fei_list_witness:
  "next_siblings [Elem ''br'' [], Text (u ''loose text''), Elem ''p'' [Text [32, 10]], Elem ''ul'' ex_entries,
         Elem ''p'' [Elem ''strong'' [Text (u ''tisdag'')]], Elem ''p'' [Text (u ''Later dish'')]]
     = [Elem ''br'' [], Elem ''p'' [Text [32, 10]]] @ Elem ''ul'' ex_entries #
       [Elem ''p'' [Elem ''strong'' [Text (u ''tisdag'')]], Elem ''p'' [Text (u ''Later dish'')]]
   \<and> get_text [] (Elem ''p'' [Text [32, 10]]) = []
   \<and> get_text [] (Elem ''ul'' ex_entries) = u ''SoppaSalladKaffe''
   \<and> parse_fei latin1 ex_three_headings (u ''TISDAG'') = [u ''Soppa'', u ''Sallad'', u ''Kaffe'']"
proof -
  let ?after = "[Elem ''br'' [], Text (u ''loose text''), Elem ''p'' [Text [32, 10]], Elem ''ul'' ex_entries,
         Elem ''p'' [Elem ''strong'' [Text (u ''tisdag'')]], Elem ''p'' [Text (u ''Later dish'')]]"
  let ?skipped = "[Elem ''br'' [], Elem ''p'' [Text [32, 10]]]"
  let ?rest = "[Elem ''p'' [Elem ''strong'' [Text (u ''tisdag'')]], Elem ''p'' [Text (u ''Later dish'')]]"
  have sibs: "next_siblings ?after = ?skipped @ Elem ''ul'' ex_entries # ?rest"
    by (simp add: next_siblings_def)
  have blank: "get_text [] (Elem ''p'' [Text [32, 10]]) = []"
    by (simp add: tree_eval is_space_def)
  have ultext: "get_text [] (Elem ''ul'' ex_entries) = u ''SoppaSalladKaffe''"
    by (simp add: ex_entries_def tree_eval u_def is_space_def)
  have pre: "\<forall>c \<in> set [(Elem ''h3'' [Text (u ''TISDAG'')], [])]. candidate_items latin1 c = []"
    by (simp add: ex_three_first_empty)
  have bound: "length ?skipped \<le> 6" by simp
  have skipped: "\<forall>e \<in> set ?skipped. elem_name e = ''br'' \<or> get_text [] e = []"
    by (simp add: blank)
  have ul: "get_text [] (Elem ''ul'' ex_entries) \<noteq> []"
    by (simp add: ultext u_def)
  have later: "list_entries (Elem ''ul'' ex_entries) \<noteq> [] \<or>
      (\<forall>c \<in> set [(Elem ''p'' [Elem ''strong'' [Text (u ''tisdag'')]], [Elem ''p'' [Text (u ''Later dish'')]]),
       (Elem ''strong'' [Text (u ''tisdag'')], [])]. candidate_items latin1 c = [])"
    by (simp add: ex_entries_texts)
  have "parse_fei latin1 ex_three_headings (u ''TISDAG'') = list_entries (Elem ''ul'' ex_entries)"
    by (rule parse_fei_list [OF ex_three_candidates pre sibs bound skipped ul later])
  then show ?thesis
    using sibs blank ultext by (simp add: ex_entries_texts)
qed

lemma walk_block_char:
  "walk_block U steps sibs acc =
     acc @ filter (\<lambda>t. t \<noteq> []) (map (get_text SP)
             (takeWhile (\<lambda>e. \<not> is_boundary U e) (take (12 - steps) sibs)))"
proof (induction sibs arbitrary: steps acc)
  case Nil
  then show ?case by simp
next
  case (Cons w ws)
  show ?case
  proof (cases "steps < 12")
    case True
    then obtain k where k: "12 - steps = Suc k" and k': "11 - steps = k"
      by (cases "12 - steps") auto
    show ?thesis
      using True Cons [of "Suc steps"] by (simp add: k k' is_boundary_def Let_def)
  next
    case False
    then show ?thesis by simp
  qed
qed

lemma takeWhile_take_boundary:
  "\<not> P b \<Longrightarrow> takeWhile P (take n (pre @ b # post)) = takeWhile P (take n pre)"
proof (induction pre arbitrary: n)
  case Nil
  then show ?case by (cases n) auto
next
  case (Cons a pre)
  then show ?case by (cases n) auto
qed

text \<open>
  Claim C6.  The walk of the running-text branch collects the non-empty texts of the
  siblings before the first boundary sibling among the first twelve, and nothing else;
  hence with a boundary sibling \<open>b\<close> (its text is, ignoring case, a weekday label or one
  of the two section phrases) after the siblings \<open>pre\<close>, the lines are those of \<open>pre\<close>
  alone: neither \<open>b\<close> nor what follows it takes part.
\<close>

theorem walk_stops_at_boundary:
  "walk_block U 0 sibs [] =
     filter (\<lambda>t. t \<noteq> []) (map (get_text SP)
       (takeWhile (\<lambda>e. \<not> is_boundary U e) (take 12 sibs)))
   \<and> (is_boundary U b \<longrightarrow> running_text U (pre @ b # post) = running_text U pre)"
proof (intro conjI impI)
  show "walk_block U 0 sibs [] =
     filter (\<lambda>t. t \<noteq> []) (map (get_text SP)
       (takeWhile (\<lambda>e. \<not> is_boundary U e) (take 12 sibs)))"
    by (simp add: walk_block_char)
next
  assume b: "is_boundary U b"
  then have "takeWhile (\<lambda>e. \<not> is_boundary U e) (take 12 (pre @ b # post)) =
             takeWhile (\<lambda>e. \<not> is_boundary U e) (take 12 pre)"
    by (intro takeWhile_take_boundary) simp
  then have "walk_block U 0 (pre @ b # post) [] = walk_block U 0 pre []"
    by (simp add: walk_block_char)
  then show "running_text U (pre @ b # post) = running_text U pre"
    by (simp add: running_text_def)
qed

text \<open>
  The theorem at a content paragraph followed by a heading with another weekday name and
  by that day's dish.
\<close>

theorem walk_stops_at_boundary_witness:
  "is_boundary latin1 (Elem ''h3'' [Text (u ''Onsdag'')])
   \<and> running_text latin1
        ([Elem ''p'' [Text (u ''Pasta carbonara'')]] @ Elem ''h3'' [Text (u ''Onsdag'')] #
         [Elem ''p'' [Text (u ''Fisksoppa'')]])
      = [u ''Pasta carbonara'']"
proof -
  have b: "is_boundary latin1 (Elem ''h3'' [Text (u ''Onsdag'')])"
    by (simp add: is_boundary_def stop_words_def WEEKDAYS_FULL_def tree_eval u_def is_space_def)
  have r: "running_text latin1 [Elem ''p'' [Text (u ''Pasta carbonara'')]] = [u ''Pasta carbonara'']"
    by (simp add: fei_eval tree_eval normalizer_eval)
  from walk_stops_at_boundary [of latin1 "[]" "Elem ''h3'' [Text (u ''Onsdag'')]"
      "[Elem ''p'' [Text (u ''Pasta carbonara'')]]" "[Elem ''p'' [Text (u ''Fisksoppa'')]]"] b
  have "running_text latin1
        ([Elem ''p'' [Text (u ''Pasta carbonara'')]] @ Elem ''h3'' [Text (u ''Onsdag'')] #
         [Elem ''p'' [Text (u ''Fisksoppa'')]])
      = running_text latin1 [Elem ''p'' [Text (u ''Pasta carbonara'')]]"
    by blast
  with b r show ?thesis by simp
qed

section \<open>Properties of Extractor B\<close>

lemmas cirkeln_eval =
  parse_cirkeln_def cirkeln_full_def cirkeln_container_def find_all_text_def search_day_def
  match_day_def search_lunchmeny_def search_week_def match_week_def lookahead_def wd_order_def
  keep_dishes_def boilerplate_def

lemma lazy_dot_block:
  "\<not> stop_in U block tail \<Longrightarrow> lookahead U tail \<Longrightarrow>
   lazy_dot U g (block @ tail) = Some (g @ block)"
proof (induction block arbitrary: g)
  case Nil
  then show ?case by (cases tail) simp_all
next
  case (Cons c block)
  then show ?case by simp
qed

lemma dot_plus_lazy_block:
  assumes "block \<noteq> []" and "\<not> stop_in U block tail" and "lookahead U tail"
  shows "dot_plus_lazy U (block @ tail) = Some block"
proof -
  from assms(1) obtain c cs where b: "block = c # cs" by (cases block) auto
  with assms(2) have "\<not> stop_in U cs tail" by simp
  then have "lazy_dot U [c] (cs @ tail) = Some ([c] @ cs)"
    using assms(3) by (rule lazy_dot_block)
  with b show ?thesis by simp
qed

lemma ws_star_group_block:
  assumes "\<forall>c \<in> set ws. is_space c" and "block \<noteq> []" and "\<not> is_space (hd block)"
    and "\<not> stop_in U block tail" and "lookahead U tail"
  shows "ws_star_group U (ws @ block @ tail) = Some block"
  using assms(1)
proof (induction ws)
  case Nil
  from assms(2) obtain c cs where b: "block = c # cs" by (cases block) auto
  with assms(3) have "\<not> is_space c" by simp
  then have "ws_star_group U (block @ tail) = dot_plus_lazy U (block @ tail)"
    by (simp add: b)
  with dot_plus_lazy_block [OF assms(2,4,5)] show ?case by simp
next
  case (Cons w ws)
  then show ?case by simp
qed

lemma ci_prefix_append:
  "ci_prefix U name occ \<Longrightarrow> length occ = length name \<Longrightarrow> ci_prefix U name (occ @ t)"
  by (induction U name occ rule: ci_prefix.induct) auto

lemma match_day_block:
  assumes "ci_prefix U name occ" and "length occ = length name"
    and "\<forall>c \<in> set ws. is_space c" and "block \<noteq> []" and "\<not> is_space (hd block)"
    and "\<not> stop_in U block tail" and "lookahead U tail"
  shows "match_day U name (occ @ ws @ block @ tail) = Some block"
  using ci_prefix_append [OF assms(1,2)] ws_star_group_block [OF assms(3-7)] assms(2)
  by (simp add: match_day_def)

lemma re_search_group_skip:
  "\<not> starts_in U name pre s \<Longrightarrow>
   re_search_group (match_day U name) (pre @ s) = re_search_group (match_day U name) s"
  by (induction pre) (simp_all add: match_day_def)

lemma re_search_group_here: "m s = Some g \<Longrightarrow> re_search_group m s = Some g"
  by (cases s) simp_all

lemma search_day_block:
  assumes "ci_prefix U name occ" and "length occ = length name"
    and "\<not> starts_in U name pre (occ @ ws @ block @ tail)"
    and "\<forall>c \<in> set ws. is_space c" and "block \<noteq> []" and "\<not> is_space (hd block)"
    and "\<not> stop_in U block tail" and "lookahead U tail"
  shows "search_day U name (pre @ occ @ ws @ block @ tail) = Some block"
  unfolding search_day_def re_search_group_skip [OF assms(3)]
  by (rule re_search_group_here) (rule match_day_block [OF assms(1,2,4-8)])

lemma ex_lunch_full:
  "cirkeln_full latin1 ex_lunch =
     u ''Lunchmeny Vecka 42'' @ NL @ u ''Vi har tisdag lunch'' @ NL @ u ''Tisdag'' @ NL @
     u ''Pasta carbonara'' @ NL @ u ''Onsdag'' @ NL @ u ''Fisksoppa''"
  by (simp add: ex_lunch_def cirkeln_eval tree_eval u_def is_space_def NL_def)

lemma cap_tisdag: "str_capitalize latin1 (u ''TISDAG'') = u ''Tisdag''"
  by (simp add: latin1_def upper_char_def lower_char_def u_def)

lemma ex_lunch_search:
  "search_day latin1 (u ''Tisdag'')
     (u ''Lunchmeny Vecka 42'' @ NL @ u ''Vi har tisdag lunch'' @ NL @ u ''Tisdag'' @ NL @
     u ''Pasta carbonara'' @ NL @ u ''Onsdag'' @ NL @ u ''Fisksoppa'') = Some (u ''lunch'' @ NL)"
  by (simp add: search_day_def match_day_def lookahead_def wd_order_def latin1_def
      upper_char_def lower_char_def u_def is_space_def NL_def)

lemma ex_lunch_claimed:
  "claimed_block (u ''Tisdag'')
     (u ''Lunchmeny Vecka 42'' @ NL @ u ''Vi har tisdag lunch'' @ NL @ u ''Tisdag'' @ NL @
     u ''Pasta carbonara'' @ NL @ u ''Onsdag'' @ NL @ u ''Fisksoppa'') = Some (NL @ u ''Pasta carbonara'' @ NL)"
  by (simp add: claimed_stop_def wd_order_def u_def NL_def)

lemma ex_week_full:
  "cirkeln_full latin1 ex_week =
     u ''Lunchmeny Vecka 42'' @ NL @ u ''Tisdag'' @ NL @
     (u ''Pasta carbonara'' @ NL @ u ''Pris 95 kr'' @ NL @ u ''11:00 - 14:00'' @ NL @
      u ''dagens soppa'' @ NL @ u ''- Fisk / Chips'' @ NL @ u ''ok'' @ NL) @
     (u ''Onsdag'' @ NL @ u ''Fisksoppa'')"
  by (simp add: ex_week_def cirkeln_eval tree_eval u_def is_space_def NL_def)

lemma ex_week_lines:
  "keep_dishes latin1 (clean_lines
     (u ''Pasta carbonara'' @ NL @ u ''Pris 95 kr'' @ NL @ u ''11:00 - 14:00'' @ NL @
      u ''dagens soppa'' @ NL @ u ''- Fisk / Chips'' @ NL @ u ''ok'' @ NL))
   = [u ''Pasta carbonara'', u ''Fisk / Chips'']"
  by (simp add: keep_dishes_def boilerplate_def normalizer_eval latin1_def lower_char_def)

lemma ex_week_parse:
  "parse_cirkeln latin1 ex_week (u ''TISDAG'') = [u ''Pasta carbonara'', u ''Fisk / Chips'']"
proof -
  have "search_day latin1 (u ''Tisdag'') (cirkeln_full latin1 ex_week) =
      Some (u ''Pasta carbonara'' @ NL @ u ''Pris 95 kr'' @ NL @ u ''11:00 - 14:00'' @ NL @
            u ''dagens soppa'' @ NL @ u ''- Fisk / Chips'' @ NL @ u ''ok'' @ NL)"
    unfolding ex_week_full
    by (simp add: search_day_def match_day_def lookahead_def wd_order_def latin1_def
        upper_char_def lower_char_def u_def is_space_def NL_def)
  then show ?thesis
    by (simp add: parse_cirkeln_def cap_tisdag ex_week_lines)
qed

text \<open>
  Claim C2, as stated, fails.  The pattern is matched with \<open>IGNORECASE\<close> and its lookahead
  lists all five weekday names.  On a page whose introduction mentions \<open>tisdag\<close> in lower
  case before the heading \<open>Tisdag\<close>, the capture starts after the lower-case word and ends
  at the heading of the target day itself, so the result is the rest of the introduction;
  the claim's capture is the dish under the heading.
\<close>

theorem parse_cirkeln_block_counterexample:
  "cirkeln_full latin1 ex_lunch =
     u ''Lunchmeny Vecka 42'' @ NL @ u ''Vi har tisdag lunch'' @ NL @ u ''Tisdag'' @ NL @
     u ''Pasta carbonara'' @ NL @ u ''Onsdag'' @ NL @ u ''Fisksoppa''
   \<and> parse_cirkeln latin1 ex_lunch (u ''TISDAG'') = [u ''lunch'']
   \<and> claimed_cirkeln latin1 ex_lunch (u ''TISDAG'') = [u ''Pasta carbonara'']
   \<and> parse_cirkeln latin1 ex_lunch (u ''TISDAG'') \<noteq> claimed_cirkeln latin1 ex_lunch (u ''TISDAG'')"
proof -
  have l1: "keep_dishes latin1 (clean_lines (u ''lunch'' @ NL)) = [u ''lunch'']"
    by (simp add: keep_dishes_def boilerplate_def normalizer_eval latin1_def lower_char_def)
  have l2: "keep_dishes latin1 (clean_lines (NL @ u ''Pasta carbonara'' @ NL)) = [u ''Pasta carbonara'']"
    by (simp add: keep_dishes_def boilerplate_def normalizer_eval latin1_def lower_char_def)
  have a: "parse_cirkeln latin1 ex_lunch (u ''TISDAG'') = [u ''lunch'']"
    unfolding parse_cirkeln_def cap_tisdag ex_lunch_full ex_lunch_search by (simp add: l1)
  have b: "claimed_cirkeln latin1 ex_lunch (u ''TISDAG'') = [u ''Pasta carbonara'']"
    unfolding claimed_cirkeln_def cap_tisdag ex_lunch_full ex_lunch_claimed by (simp add: l2)
  have c: "[u ''lunch''] \<noteq> [u ''Pasta carbonara'']" by (simp add: u_def)
  show ?thesis unfolding a b using ex_lunch_full c by simp
qed

text \<open>
  Claim C2, amended.  Let the combined text be \<open>pre @ occ @ ws @ block @ tail\<close>, where
  \<open>occ\<close> matches the capitalized weekday name ignoring case and no such match starts
  inside \<open>pre\<close>, \<open>ws\<close> is the whitespace after it, \<open>block\<close> is non-empty and starts with a
  character that is not whitespace, the lookahead (any of the five weekday names, the
  target's own included, or one of the three markers, all ignoring case, or the end of the
  string) holds at no position inside \<open>block\<close>, and it holds at \<open>tail\<close>.  Then the pattern
  captures exactly \<open>block\<close>, whatever line breaks it holds, and the result consists of the
  kept normalized lines of \<open>block\<close> alone.  The weekday is one of \<open>WEEKDAYS_FULL\<close>, for
  which the interpolated name is a literal pattern.
\<close>

theorem parse_cirkeln_block:
  assumes "weekday_upper \<in> set WEEKDAYS_FULL"
    and "cirkeln_full U soup = pre @ occ @ ws @ block @ tail"
    and "ci_prefix U (str_capitalize U weekday_upper) occ"
    and "length occ = length (str_capitalize U weekday_upper)"
    and "\<not> starts_in U (str_capitalize U weekday_upper) pre (occ @ ws @ block @ tail)"
    and "\<forall>c \<in> set ws. is_space c"
    and "block \<noteq> []" and "\<not> is_space (hd block)"
    and "\<not> stop_in U block tail"
    and "lookahead U tail"
  shows "search_day U (str_capitalize U weekday_upper) (cirkeln_full U soup) = Some block
         \<and> parse_cirkeln U soup weekday_upper = keep_dishes U (clean_lines block)"
proof -
  have "search_day U (str_capitalize U weekday_upper) (cirkeln_full U soup) = Some block"
    unfolding assms(2) by (rule search_day_block [OF assms(3-10)])
  then show ?thesis by (simp add: parse_cirkeln_def)
qed

text \<open>
  The amended theorem at the page of the Tuesday block: the block runs from the first dish
  to the line feed before \<open>Onsdag\<close>.
\<close>

theorem parse_cirkeln_block_witness:
  "cirkeln_full latin1 ex_week =
     (u ''Lunchmeny Vecka 42'' @ NL) @ u ''Tisdag'' @ NL @
     (u ''Pasta carbonara'' @ NL @ u ''Pris 95 kr'' @ NL @ u ''11:00 - 14:00'' @ NL @
      u ''dagens soppa'' @ NL @ u ''- Fisk / Chips'' @ NL @ u ''ok'' @ NL) @
     (u ''Onsdag'' @ NL @ u ''Fisksoppa'')
   \<and> search_day latin1 (u ''Tisdag'') (cirkeln_full latin1 ex_week) =
       Some (u ''Pasta carbonara'' @ NL @ u ''Pris 95 kr'' @ NL @ u ''11:00 - 14:00'' @ NL @
             u ''dagens soppa'' @ NL @ u ''- Fisk / Chips'' @ NL @ u ''ok'' @ NL)
   \<and> parse_cirkeln latin1 ex_week (u ''TISDAG'') = [u ''Pasta carbonara'', u ''Fisk / Chips'']"
proof -
  let ?pre = "u ''Lunchmeny Vecka 42'' @ NL"
  let ?occ = "u ''Tisdag''"
  let ?block = "u ''Pasta carbonara'' @ NL @ u ''Pris 95 kr'' @ NL @ u ''11:00 - 14:00'' @ NL @
      u ''dagens soppa'' @ NL @ u ''- Fisk / Chips'' @ NL @ u ''ok'' @ NL"
  let ?tail = "u ''Onsdag'' @ NL @ u ''Fisksoppa''"
  have wd: "u ''TISDAG'' \<in> set WEEKDAYS_FULL" by (simp add: WEEKDAYS_FULL_def)
  have full: "cirkeln_full latin1 ex_week = ?pre @ ?occ @ NL @ ?block @ ?tail"
    by (simp add: ex_week_full)
  have occ: "ci_prefix latin1 (str_capitalize latin1 (u ''TISDAG'')) ?occ"
    unfolding cap_tisdag by (simp add: latin1_def lower_char_def u_def)
  have len: "length ?occ = length (str_capitalize latin1 (u ''TISDAG''))"
    unfolding cap_tisdag by simp
  have first: "\<not> starts_in latin1 (str_capitalize latin1 (u ''TISDAG'')) ?pre (?occ @ NL @ ?block @ ?tail)"
    unfolding cap_tisdag by (simp add: latin1_def lower_char_def u_def NL_def)
  have ws: "\<forall>c \<in> set NL. is_space c" by (simp add: NL_def is_space_def)
  have ne: "?block \<noteq> []" by (simp add: u_def)
  have hd: "\<not> is_space (hd ?block)" by (simp add: u_def is_space_def)
  have nostop: "\<not> stop_in latin1 ?block ?tail"
    by (simp add: lookahead_def wd_order_def latin1_def lower_char_def u_def NL_def)
  have stop: "lookahead latin1 ?tail"
    by (simp add: lookahead_def wd_order_def latin1_def lower_char_def u_def NL_def)
  from parse_cirkeln_block [OF wd full occ len first ws ne hd nostop stop]
  show ?thesis
    unfolding cap_tisdag ex_week_lines using full by simp
qed

text \<open>
  Claim C7.  Every line of the result of \<open>parse_cirkeln\<close> is longer than three characters
  and does not begin, ignoring case, with \<open>Pris\<close>, \<open>11:\<close>, \<open>Dagens\<close> or \<open>Veckans\<close>; the result
  is the captured block's normalized lines without the short ones and without those of
  these shapes.
\<close>

theorem parse_cirkeln_filtered:
  "(\<forall>ln \<in> set (parse_cirkeln U soup weekday_upper).
       length ln > 3 \<and> \<not> ci_prefix U (u ''Pris'') ln \<and> \<not> ci_prefix U (u ''11:'') ln
       \<and> \<not> ci_prefix U (u ''Dagens'') ln \<and> \<not> ci_prefix U (u ''Veckans'') ln)
   \<and> (search_day U (str_capitalize U weekday_upper) (cirkeln_full U soup) = Some block \<longrightarrow>
        parse_cirkeln U soup weekday_upper =
          filter (\<lambda>ln. length ln > 3 \<and> \<not> boilerplate U ln) (clean_lines block))"
  by (auto simp: parse_cirkeln_def keep_dishes_def boilerplate_def split: option.splits)

text \<open>
  The theorem at a page whose Tuesday block holds a dish, a price line, the serving hours,
  a soup-of-the-day line, a dish with a bullet, and a two-letter line.
\<close>

theorem parse_cirkeln_filtered_witness:
  "parse_cirkeln latin1 ex_week (u ''TISDAG'') = [u ''Pasta carbonara'', u ''Fisk / Chips'']
   \<and> 3 < length (u ''Fisk / Chips'')
   \<and> \<not> ci_prefix latin1 (u ''Pris'') (u ''Fisk / Chips'')
   \<and> \<not> ci_prefix latin1 (u ''11:'') (u ''Fisk / Chips'')
   \<and> \<not> ci_prefix latin1 (u ''Dagens'') (u ''Fisk / Chips'')
   \<and> \<not> ci_prefix latin1 (u ''Veckans'') (u ''Fisk / Chips'')"
proof -
  have "u ''Fisk / Chips'' \<in> set (parse_cirkeln latin1 ex_week (u ''TISDAG''))"
    by (simp add: ex_week_parse)
  with parse_cirkeln_filtered [of latin1 ex_week "u ''TISDAG''"]
  have "3 < length (u ''Fisk / Chips'')
   \<and> \<not> ci_prefix latin1 (u ''Pris'') (u ''Fisk / Chips'')
   \<and> \<not> ci_prefix latin1 (u ''11:'') (u ''Fisk / Chips'')
   \<and> \<not> ci_prefix latin1 (u ''Dagens'') (u ''Fisk / Chips'')
   \<and> \<not> ci_prefix latin1 (u ''Veckans'') (u ''Fisk / Chips'')"
    by blast
  with ex_week_parse show ?thesis by blast
qed

section \<open>Properties of the Menu Assembler\<close>

lemma assemble_map:
  "assemble U fetch wd sources acc = acc @ map (\<lambda>(key, url). try_menu U fetch wd key url) sources"
  by (induction sources arbitrary: acc) auto

lemma try_menu_key: "restaurant_key (try_menu U fetch wd key url) = key"
  by (simp add: try_menu_def get_menu_for_def split: sum.splits)

text \<open>
  Claim C3.  The loop yields one entry per source, in the order of the registry, each the
  result of the \<open>try\<close> statement for that source alone.  When \<open>get_menu_for\<close> raises, the
  entry has exactly one item, the message with the text of the exception in it; otherwise
  it is the menu returned.  An entry depends on the fetch of its own address only, so a
  failure elsewhere leaves it as it is.
\<close>

theorem assemble_per_source:
  "assemble U fetch wd sources [] = map (\<lambda>(key, url). try_menu U fetch wd key url) sources
   \<and> map restaurant_key (assemble U fetch wd sources []) = map fst sources
   \<and> map restaurant_key (main_day_menus U fetch wd) = [u ''FEI'', u ''Cirkeln'']
   \<and> (get_menu_for U fetch key url wd = Inl e \<longrightarrow>
        try_menu U fetch wd key url =
          \<lparr> restaurant_key = key,
            items = [u ''(fel vid h'' @ [228] @ u ''mtning: '' @ exn_str e @ u '')''] \<rparr>)
   \<and> (get_menu_for U fetch key url wd = Inr dm \<longrightarrow> try_menu U fetch wd key url = dm)
   \<and> (fetch' url = fetch url \<longrightarrow> try_menu U fetch' wd key url = try_menu U fetch wd key url)"
proof (intro conjI impI)
  show a: "assemble U fetch wd sources [] = map (\<lambda>(key, url). try_menu U fetch wd key url) sources"
    for sources
    by (simp add: assemble_map)
  show b: "map restaurant_key (assemble U fetch wd sources []) = map fst sources" for sources
    by (simp add: a try_menu_key split_def)
  show "map restaurant_key (main_day_menus U fetch wd) = [u ''FEI'', u ''Cirkeln'']"
    unfolding main_day_menus_def b by (simp add: SOURCE_URLS_def)
next
  assume "get_menu_for U fetch key url wd = Inl e"
  then show "try_menu U fetch wd key url =
          \<lparr> restaurant_key = key,
            items = [u ''(fel vid h'' @ [228] @ u ''mtning: '' @ exn_str e @ u '')''] \<rparr>"
    by (simp add: try_menu_def error_text_def)
next
  assume "get_menu_for U fetch key url wd = Inr dm"
  then show "try_menu U fetch wd key url = dm" by (simp add: try_menu_def)
next
  assume "fetch' url = fetch url"
  then show "try_menu U fetch' wd key url = try_menu U fetch wd key url"
    by (simp add: try_menu_def get_menu_for_def)
qed

theorem assemble_per_source_witness:
  "main_day_menus latin1 ex_fetch (u ''TISDAG'') =
     [\<lparr> restaurant_key = u ''FEI'',
         items = [u ''(fel vid h'' @ [228] @ u ''mtning: 404 Client Error: Not Found for url: https://www.fei.se/meny-fei-restaurant-lounge)''] \<rparr>,
      \<lparr> restaurant_key = u ''Cirkeln'', items = [] \<rparr>]"
proof -
  let ?fei = "u ''https://www.fei.se/meny-fei-restaurant-lounge''"
  let ?cirkeln = "u ''https://cirkelnstockholm.se/restauranger/restaurang-cirkeln/''"
  let ?e = "Exn (u ''404 Client Error: Not Found for url: https://www.fei.se/meny-fei-restaurant-lounge'')"
  have f1: "ex_fetch ?fei = Inl ?e" by (simp add: ex_fetch_def)
  have f2: "ex_fetch ?cirkeln = Inr (Elem ''[document]'' [])"
    by (simp add: ex_fetch_def u_def)
  have g1: "get_menu_for latin1 ex_fetch (u ''FEI'') ?fei (u ''TISDAG'') = Inl ?e"
    by (simp add: get_menu_for_def f1)
  have g2: "get_menu_for latin1 ex_fetch (u ''Cirkeln'') ?cirkeln (u ''TISDAG'')
      = Inr \<lparr> restaurant_key = u ''Cirkeln'', items = [] \<rparr>"
    unfolding get_menu_for_def f2
    by (simp add: cirkeln_eval tree_eval u_def)
  note T = assemble_per_source [of latin1 ex_fetch "u ''TISDAG''" SOURCE_URLS]
  have "main_day_menus latin1 ex_fetch (u ''TISDAG'') =
      [try_menu latin1 ex_fetch (u ''TISDAG'') (u ''FEI'') ?fei,
       try_menu latin1 ex_fetch (u ''TISDAG'') (u ''Cirkeln'') ?cirkeln]"
    unfolding main_day_menus_def T [THEN conjunct1] by (simp add: SOURCE_URLS_def)
  moreover have "try_menu latin1 ex_fetch (u ''TISDAG'') (u ''FEI'') ?fei =
      \<lparr> restaurant_key = u ''FEI'',
         items = [u ''(fel vid h'' @ [228] @ u ''mtning: '' @ exn_str ?e @ u '')''] \<rparr>"
    using T [THEN conjunct2, THEN conjunct2, THEN conjunct2, THEN conjunct1] g1 by blast
  moreover have "try_menu latin1 ex_fetch (u ''TISDAG'') (u ''Cirkeln'') ?cirkeln =
      \<lparr> restaurant_key = u ''Cirkeln'', items = [] \<rparr>"
    using T [THEN conjunct2, THEN conjunct2, THEN conjunct2, THEN conjunct2, THEN conjunct1] g2
    by blast
  ultimately show ?thesis by (simp add: u_def)
qed

section \<open>Properties of the Page Renderer\<close>

lemma br_chars: "u ''<br>'' = [60, 98, 114, 62]"
  by (simp add: u_def)

lemma not_space_br [simp]: "\<not> is_space 60" "\<not> is_space 98" "\<not> is_space 114" "\<not> is_space 62"
  "\<not> is_space 47" "\<not> is_space 124" "\<not> is_space 40"
  by (simp_all add: is_space_def)

text \<open>The defining equation, by the first character.\<close>

lemma re_sub_sep_nonspace:
  "\<not> is_space c \<Longrightarrow> c \<noteq> sep \<Longrightarrow> re_sub_sep sep (c # cs) = c # re_sub_sep sep cs"
  by simp

lemma re_sub_sep_sep:
  "\<not> is_space sep \<Longrightarrow> re_sub_sep sep (sep # cs) = u ''<br>'' @ re_sub_sep sep (dropWhile is_space cs)"
  by simp

lemma re_sub_sep_space:
  "is_space c \<Longrightarrow> re_sub_sep sep (c # cs) =
     (case dropWhile is_space cs of
        [] \<Rightarrow> c # re_sub_sep sep cs
      | d # ds \<Rightarrow> if d = sep then u ''<br>'' @ re_sub_sep sep (dropWhile is_space ds)
                 else c # re_sub_sep sep cs)"
  by simp

declare re_sub_sep.simps(2) [simp del] spec_linebreaks.simps(2) [simp del]

lemma re_sub_sep_subset: "set (re_sub_sep sep s) \<subseteq> set s \<union> {60, 98, 114, 62}"
proof (induction sep s rule: re_sub_sep.induct)
  case (1 sep)
  then show ?case by simp
next
  case (2 sep c cs)
  show ?case
  proof (cases "dropWhile is_space (c # cs)")
    case Nil
    with 2(1) show ?thesis by (auto simp: re_sub_sep.simps(2))
  next
    case (Cons d ds)
    have sub: "set (dropWhile is_space ds) \<subseteq> set (c # cs)"
      using set_dropWhileD [of _ is_space ds] set_dropWhileD [of _ is_space "c # cs"] Cons
      by (metis list.set_intros(2) subsetI)
    show ?thesis
    proof (cases "d = sep")
      case True
      with 2(2) [OF Cons] have "set (re_sub_sep sep (dropWhile is_space ds)) \<subseteq> set (dropWhile is_space ds) \<union> {60, 98, 114, 62}"
        by simp
      with sub True Cons show ?thesis
        by (auto simp: re_sub_sep.simps(2) br_chars)
    next
      case False
      with 2(3) [OF Cons] Cons show ?thesis by (auto simp: re_sub_sep.simps(2))
    qed
  qed
qed

lemma dropWhile_space_Cons:
  "is_space c \<Longrightarrow> dropWhile is_space (c # cs) = dropWhile is_space cs"
  "\<not> is_space c \<Longrightarrow> dropWhile is_space (c # cs) = c # cs"
  by simp_all

lemma re_sub_sep_removes:
  "\<not> is_space sep \<Longrightarrow> sep \<notin> {60, 98, 114, 62} \<Longrightarrow> sep \<notin> set (re_sub_sep sep s)"
proof (induction sep s rule: re_sub_sep.induct)
  case (1 sep)
  then show ?case by simp
next
  case (2 sep c cs)
  show ?case
  proof (cases "is_space c")
    case True
    with 2(4) have ne: "c \<noteq> sep" by auto
    show ?thesis
    proof (cases "dropWhile is_space (c # cs)")
      case Nil
      with 2 ne show ?thesis by (simp add: re_sub_sep.simps(2))
    next
      case (Cons d ds)
      with 2 ne show ?thesis
        by (cases "d = sep") (auto simp: re_sub_sep.simps(2) br_chars)
    qed
  next
    case False
    then have dw: "dropWhile is_space (c # cs) = c # cs" by simp
    from 2 dw show ?thesis
      by (cases "c = sep") (auto simp: re_sub_sep.simps(2) br_chars)
  qed
qed

lemma re_sub_sep_id: "sep \<notin> set s \<Longrightarrow> re_sub_sep sep s = s"
proof (induction sep s rule: re_sub_sep.induct)
  case (1 sep)
  then show ?case by simp
next
  case (2 sep c cs)
  show ?case
  proof (cases "dropWhile is_space (c # cs)")
    case Nil
    with 2 show ?thesis by (simp add: re_sub_sep.simps(2))
  next
    case (Cons d ds)
    then have "d \<in> set (dropWhile is_space (c # cs))" by simp
    then have "d \<in> set (c # cs)" by (rule set_dropWhileD)
    with 2(4) have "d \<noteq> sep" by auto
    with 2 Cons show ?thesis by (simp add: re_sub_sep.simps(2))
  qed
qed

lemma re_sub_sep_dropWhile:
  "\<not> is_space sep \<Longrightarrow>
   dropWhile is_space (re_sub_sep sep s) = re_sub_sep sep (dropWhile is_space s)"
proof (induction s)
  case Nil
  then show ?case by simp
next
  case (Cons c cs)
  note IH = Cons.IH [OF Cons.prems] and nsep = Cons.prems
  show ?case
  proof (cases "is_space c")
    case False
    with nsep show ?thesis
      by (cases "c = sep") (simp_all add: br_chars re_sub_sep_sep re_sub_sep_nonspace)
  next
    case True
    show ?thesis
    proof (cases "dropWhile is_space cs")
      case Nil
      have "re_sub_sep sep (c # cs) = c # re_sub_sep sep cs"
        using True by (simp add: re_sub_sep_space Nil)
      with True IH show ?thesis by simp
    next
      case (Cons d ds)
      show ?thesis
      proof (cases "d = sep")
        case eq: True
        have "re_sub_sep sep (c # cs) = u ''<br>'' @ re_sub_sep sep (dropWhile is_space ds)"
          using True eq by (simp add: re_sub_sep_space Cons)
        moreover have "re_sub_sep sep (dropWhile is_space (c # cs)) =
            u ''<br>'' @ re_sub_sep sep (dropWhile is_space ds)"
          using True eq nsep by (simp add: re_sub_sep_sep Cons)
        ultimately show ?thesis by (simp add: br_chars)
      next
        case neq: False
        have "re_sub_sep sep (c # cs) = c # re_sub_sep sep cs"
          using True neq by (simp add: re_sub_sep_space Cons)
        with True IH show ?thesis by simp
      qed
    qed
  qed
qed

lemma re_sub_sep_br:
  "\<not> is_space sep \<Longrightarrow> sep \<notin> {60, 98, 114, 62} \<Longrightarrow>
   re_sub_sep sep (u ''<br>'' @ t) = u ''<br>'' @ re_sub_sep sep t"
  by (auto simp: br_chars re_sub_sep_nonspace)

lemma re_sub_sep_ws_prefix:
  "\<forall>x \<in> set w. is_space x \<Longrightarrow> \<not> is_space d \<Longrightarrow> d \<noteq> sep \<Longrightarrow>
   re_sub_sep sep (w @ d # ds) = w @ d # re_sub_sep sep ds"
proof (induction w)
  case Nil
  then show ?case by (simp add: re_sub_sep_nonspace)
next
  case (Cons x w)
  then have x: "is_space x" and w: "\<forall>y \<in> set w. is_space y" by simp_all
  from w Cons.prems(2) have dw: "dropWhile is_space (w @ d # ds) = d # ds"
    by (simp add: dropWhile_append)
  have "re_sub_sep sep (x # w @ d # ds) = x # re_sub_sep sep (w @ d # ds)"
    using x Cons.prems(3) by (simp add: re_sub_sep_space dw)
  with Cons.IH [OF w Cons.prems(2,3)] show ?case by simp
qed

lemma re_sub_sep_at_sep:
  "\<forall>x \<in> set w. is_space x \<Longrightarrow> \<not> is_space sep \<Longrightarrow>
   re_sub_sep sep (w @ sep # t) = u ''<br>'' @ re_sub_sep sep (dropWhile is_space t)"
proof (cases w)
  case Nil
  assume "\<not> is_space sep"
  with Nil show ?thesis by (simp add: re_sub_sep_sep)
next
  case (Cons x w')
  assume a: "\<forall>x \<in> set w. is_space x" and b: "\<not> is_space sep"
  from a Cons have x: "is_space x" and w': "\<forall>y \<in> set w'. is_space y" by simp_all
  from w' b have dw: "dropWhile is_space (w' @ sep # t) = sep # t"
    by (simp add: dropWhile_append)
  have "re_sub_sep sep (x # w' @ sep # t) = u ''<br>'' @ re_sub_sep sep (dropWhile is_space t)"
    using x by (simp add: re_sub_sep_space dw)
  with Cons show ?thesis by simp
qed

lemma split_at_nonspace:
  assumes "dropWhile is_space s = d # ds"
  obtains w where "s = w @ d # ds" and "\<forall>x \<in> set w. is_space x" and "\<not> is_space d"
proof
  show "s = takeWhile is_space s @ d # ds"
    using takeWhile_dropWhile_id [of is_space s] by (simp only: assms)
  show "\<forall>x \<in> set (takeWhile is_space s). is_space x"
    by (auto dest: set_takeWhileD)
  show "\<not> is_space d" using assms by (rule dropWhile_space_hd)
qed

lemma spec_linebreaks_at_sep:
  assumes "\<forall>x \<in> set w. is_space x" and "d = 47 \<or> d = 124"
  shows "spec_linebreaks (w @ d # ds) = u ''<br>'' @ spec_linebreaks (dropWhile is_space ds)"
proof -
  have nd: "\<not> is_space d" using assms(2) by auto
  with assms(1) have dw: "dropWhile is_space (w @ d # ds) = d # ds"
    by (simp add: dropWhile_append)
  show ?thesis
  proof (cases w)
    case Nil
    have "spec_linebreaks (d # ds) = u ''<br>'' @ spec_linebreaks (dropWhile is_space ds)"
      using nd assms(2) by (auto simp: spec_linebreaks.simps(2))
    with Nil show ?thesis by simp
  next
    case (Cons x w')
    have "dropWhile is_space (x # w' @ d # ds) = d # ds"
      using dw Cons by simp
    then have "spec_linebreaks (x # w' @ d # ds) = u ''<br>'' @ spec_linebreaks (dropWhile is_space ds)"
      using assms(2) by (simp only: spec_linebreaks.simps(2) list.case if_True)
    with Cons show ?thesis by simp
  qed
qed

lemma force_linebreaks_refines: "force_linebreaks s = spec_linebreaks s"
proof (induction s rule: spec_linebreaks.induct)
  case 1
  then show ?case by (simp add: force_linebreaks_def)
next
  case (2 c cs)
  show ?case
  proof (cases "dropWhile is_space (c # cs)")
    case Nil
    then have all: "\<forall>x \<in> set (c # cs). is_space x"
      by (simp only: dropWhile_eq_Nil_conv)
    then have "47 \<notin> set (c # cs)" "124 \<notin> set (c # cs)" by auto
    then have "force_linebreaks (c # cs) = c # cs"
      by (simp add: force_linebreaks_def re_sub_sep_id)
    moreover from all have "47 \<notin> set cs" "124 \<notin> set cs" by auto
    then have "force_linebreaks cs = cs"
      by (simp add: force_linebreaks_def re_sub_sep_id)
    moreover have "spec_linebreaks (c # cs) = c # spec_linebreaks cs"
      by (simp only: spec_linebreaks.simps(2) Nil list.case)
    ultimately show ?thesis
      using 2(1) [OF Nil] by simp
  next
    case (Cons d ds)
    from Cons obtain w where s: "c # cs = w @ d # ds"
      and w: "\<forall>x \<in> set w. is_space x" and nd: "\<not> is_space d"
      by (rule split_at_nonspace)
    consider (slash) "d = 47" | (pipe) "d = 124" | (other) "d \<noteq> 47" "d \<noteq> 124" by blast
    then show ?thesis
    proof cases
      case slash
      have "re_sub_sep 47 (w @ 47 # ds) = u ''<br>'' @ re_sub_sep 47 (dropWhile is_space ds)"
        using w by (intro re_sub_sep_at_sep) simp_all
      then have "force_linebreaks (w @ 47 # ds) = u ''<br>'' @ force_linebreaks (dropWhile is_space ds)"
        by (simp add: force_linebreaks_def re_sub_sep_br)
      moreover have "spec_linebreaks (w @ 47 # ds) = u ''<br>'' @ spec_linebreaks (dropWhile is_space ds)"
        using w by (intro spec_linebreaks_at_sep) simp_all
      moreover have "force_linebreaks (dropWhile is_space ds) = spec_linebreaks (dropWhile is_space ds)"
        using slash by (intro 2(2) [OF Cons]) simp
      ultimately show ?thesis unfolding s slash by simp
    next
      case pipe
      have "re_sub_sep 47 (w @ 124 # ds) = w @ 124 # re_sub_sep 47 ds"
        using w by (intro re_sub_sep_ws_prefix) simp_all
      moreover have "re_sub_sep 124 (w @ 124 # re_sub_sep 47 ds) =
          u ''<br>'' @ re_sub_sep 124 (dropWhile is_space (re_sub_sep 47 ds))"
        using w by (intro re_sub_sep_at_sep) simp_all
      ultimately have "force_linebreaks (w @ 124 # ds) =
          u ''<br>'' @ force_linebreaks (dropWhile is_space ds)"
        by (simp add: force_linebreaks_def re_sub_sep_dropWhile)
      moreover have "spec_linebreaks (w @ 124 # ds) = u ''<br>'' @ spec_linebreaks (dropWhile is_space ds)"
        using w by (intro spec_linebreaks_at_sep) simp_all
      moreover have "force_linebreaks (dropWhile is_space ds) = spec_linebreaks (dropWhile is_space ds)"
        using pipe by (intro 2(2) [OF Cons]) simp
      ultimately show ?thesis unfolding s pipe by simp
    next
      case other
      have ih: "force_linebreaks cs = spec_linebreaks cs"
        using other by (intro 2(3) [OF Cons]) simp
      have sp: "spec_linebreaks (c # cs) = c # spec_linebreaks cs"
        using other by (simp only: spec_linebreaks.simps(2) Cons list.case) simp
      have t1: "re_sub_sep 47 (c # cs) = c # re_sub_sep 47 cs"
      proof (cases "is_space c")
        case True
        with Cons have dw: "dropWhile is_space cs = d # ds" by simp
        from True other show ?thesis by (simp add: re_sub_sep_space dw)
      next
        case False
        with Cons have "c = d" by simp
        with False other show ?thesis by (simp add: re_sub_sep_nonspace)
      qed
      have t2: "re_sub_sep 124 (c # re_sub_sep 47 cs) = c # re_sub_sep 124 (re_sub_sep 47 cs)"
      proof (cases "is_space c")
        case True
        with Cons have dw: "dropWhile is_space cs = d # ds" by simp
        have "dropWhile is_space (re_sub_sep 47 cs) = re_sub_sep 47 (d # ds)"
          by (simp add: re_sub_sep_dropWhile dw)
        also have "\<dots> = d # re_sub_sep 47 ds"
          using nd other by (simp add: re_sub_sep_nonspace)
        finally have dw2: "dropWhile is_space (re_sub_sep 47 cs) = d # re_sub_sep 47 ds" .
        from True other show ?thesis by (simp add: re_sub_sep_space dw2)
      next
        case False
        with Cons have "c = d" by simp
        with False other show ?thesis by (simp add: re_sub_sep_nonspace)
      qed
      from t1 t2 have "force_linebreaks (c # cs) = c # force_linebreaks cs"
        by (simp add: force_linebreaks_def)
      with ih sp show ?thesis by simp
    qed
  qed
qed

lemma force_linebreaks_removes:
  "47 \<notin> set (force_linebreaks s)" "124 \<notin> set (force_linebreaks s)"
proof -
  have "47 \<notin> set (re_sub_sep 47 s)" by (rule re_sub_sep_removes) simp_all
  moreover have "set (re_sub_sep 124 (re_sub_sep 47 s)) \<subseteq> set (re_sub_sep 47 s) \<union> {60, 98, 114, 62}"
    by (rule re_sub_sep_subset)
  ultimately show "47 \<notin> set (force_linebreaks s)"
    by (auto simp: force_linebreaks_def)
  show "124 \<notin> set (force_linebreaks s)"
    unfolding force_linebreaks_def by (rule re_sub_sep_removes) simp_all
qed

lemma force_linebreaks_id: "47 \<notin> set s \<Longrightarrow> 124 \<notin> set s \<Longrightarrow> force_linebreaks s = s"
  by (simp add: force_linebreaks_def re_sub_sep_id)

lemma render_dishes_concat: "render_dishes dishes html = html @ concat (map dish_line dishes)"
  by (induction dishes arbitrary: html) simp_all

lemmas linebreak_eval = spec_linebreaks.simps(2) re_sub_sep.simps(2) force_linebreaks_def
  is_space_def u_def

text \<open>
  Claim C9.  \<open>force_linebreaks\<close>, the two substitutions in a row, is the one-pass splitting
  of the specification: each slash and each pipe, with the whitespace around it, becomes
  \<open><br>\<close>.  No slash or pipe is left, a text without them is unchanged, and every dish of a
  menu is rendered as one \<open>dish\<close> block holding its text split in this way.
\<close>

theorem force_linebreaks_splits:
  "force_linebreaks text = spec_linebreaks text
   \<and> 47 \<notin> set (force_linebreaks text) \<and> 124 \<notin> set (force_linebreaks text)
   \<and> (47 \<notin> set text \<and> 124 \<notin> set text \<longrightarrow> force_linebreaks text = text)
   \<and> render_dishes dishes html =
       html @ concat (map (\<lambda>dish. u ''      <div class='dish'>'' @ force_linebreaks dish @
                                   u ''</div>'' @ NL) dishes)"
proof (intro conjI impI)
  show "force_linebreaks text = spec_linebreaks text" by (rule force_linebreaks_refines)
  show "47 \<notin> set (force_linebreaks text)" by (rule force_linebreaks_removes)
  show "124 \<notin> set (force_linebreaks text)" by (rule force_linebreaks_removes)
  show "render_dishes dishes html =
       html @ concat (map (\<lambda>dish. u ''      <div class='dish'>'' @ force_linebreaks dish @
                                   u ''</div>'' @ NL) dishes)"
    by (simp add: render_dishes_concat dish_line_def [abs_def])
next
  assume "47 \<notin> set text \<and> 124 \<notin> set text"
  then show "force_linebreaks text = text" by (simp add: force_linebreaks_id)
qed

theorem force_linebreaks_splits_witness:
  "force_linebreaks (u ''Fish / Chips'') = u ''Fish<br>Chips''
   \<and> force_linebreaks (u ''Soppa |  br'' @ [246] @ u ''d/sm'' @ [246] @ u ''r'')
       = u ''Soppa<br>br'' @ [246] @ u ''d<br>sm'' @ [246] @ u ''r''
   \<and> force_linebreaks (u ''Pasta carbonara'') = u ''Pasta carbonara''"
proof -
  have a: "spec_linebreaks (u ''Fish / Chips'') = u ''Fish<br>Chips''"
    by (simp add: linebreak_eval)
  have b: "spec_linebreaks (u ''Soppa |  br'' @ [246] @ u ''d/sm'' @ [246] @ u ''r'')
       = u ''Soppa<br>br'' @ [246] @ u ''d<br>sm'' @ [246] @ u ''r''"
    by (simp add: linebreak_eval)
  have c: "47 \<notin> set (u ''Pasta carbonara'') \<and> 124 \<notin> set (u ''Pasta carbonara'')"
    by (simp add: u_def)
  have "force_linebreaks (u ''Fish / Chips'') = spec_linebreaks (u ''Fish / Chips'')"
    by (rule force_linebreaks_splits [THEN conjunct1])
  moreover have "force_linebreaks (u ''Soppa |  br'' @ [246] @ u ''d/sm'' @ [246] @ u ''r'')
      = spec_linebreaks (u ''Soppa |  br'' @ [246] @ u ''d/sm'' @ [246] @ u ''r'')"
    by (rule force_linebreaks_splits [THEN conjunct1])
  moreover have "force_linebreaks (u ''Pasta carbonara'') = u ''Pasta carbonara''"
    using force_linebreaks_splits [of "u ''Pasta carbonara''" "[]" "[]"] c by blast
  ultimately show ?thesis
    by (simp only: a b simp_thms)
qed

lemma render_menu_append: "render_menu U wd dm html = html @ render_menu U wd dm []"
  by (simp add: render_menu_def render_dishes_concat Let_def)

lemma render_menus_concat:
  "render_menus U wd day_menus html = html @ concat (map (\<lambda>dm. render_menu U wd dm []) day_menus)"
proof (induction day_menus arbitrary: html)
  case Nil
  then show ?case by simp
next
  case (Cons dm day_menus)
  show ?case
    using render_menu_append [of U wd dm html] by (simp add: Cons)
qed

lemma error_text_head: "error_text e = 40 # tl (error_text e)"
  by (simp add: error_text_def u_def)

lemma force_linebreaks_paren: "force_linebreaks (40 # s) = 40 # force_linebreaks s"
  by (simp add: force_linebreaks_def re_sub_sep_nonspace)

lemma dish_line_error_head:
  "dish_line (error_text e) =
     u ''      <div class='dish'>'' @ 40 # force_linebreaks (tl (error_text e)) @ u ''</div>'' @ NL"
proof -
  have "force_linebreaks (error_text e) = 40 # force_linebreaks (tl (error_text e))"
    using error_text_head [of e] force_linebreaks_paren [of "tl (error_text e)"] by simp
  then show ?thesis by (simp add: dish_line_def)
qed

lemma placeholder_head:
  "placeholder_line U wd =
     u ''      <div class='dish'>'' @ 60 # u ''em>ingen meny hittad f'' @ [246] @ u ''r '' @
     str_capitalize U wd @ u ''</em></div>'' @ NL"
  by (simp add: placeholder_line_def u_def)

lemma error_line_not_placeholder: "dish_line (error_text e) \<noteq> placeholder_line U wd"
  unfolding dish_line_error_head placeholder_head by simp

text \<open>
  Claim C8.  The page is the head, one card per menu in order, and the foot.  The card of
  a menu without items holds, after its head, exactly the italic line
  \<open>ingen meny hittad f\<dots>r\<close> with the capitalized weekday, and no dish line; the card of a
  menu with items holds one dish line per item and no such line.  The entry built from a
  failed fetch has an item, so it is rendered as a dish line, and that line differs from
  the italic one.
\<close>

theorem render_placeholder:
  "render_html U updated_at wd day_menus =
     html_head wd @ concat (map (\<lambda>dm. render_menu U wd dm []) day_menus) @ html_foot updated_at
   \<and> (items dm = [] \<longrightarrow>
        render_menu U wd dm html =
          html @ card_head (restaurant_key dm) @
          u ''      <div class='dish'><em>ingen meny hittad f'' @ [246] @ u ''r '' @
          str_capitalize U wd @ u ''</em></div>'' @ NL @
          u ''    </div>'' @ NL)
   \<and> (items dm \<noteq> [] \<longrightarrow>
        render_menu U wd dm html =
          html @ card_head (restaurant_key dm) @ concat (map dish_line (items dm)) @
          u ''    </div>'' @ NL)
   \<and> render_menu U wd \<lparr> restaurant_key = key, items = [error_text e] \<rparr> html =
        html @ card_head key @ dish_line (error_text e) @ u ''    </div>'' @ NL
   \<and> dish_line (error_text e) \<noteq> placeholder_line U wd"
proof (intro conjI impI)
  show "render_html U updated_at wd day_menus =
     html_head wd @ concat (map (\<lambda>dm. render_menu U wd dm []) day_menus) @ html_foot updated_at"
    by (simp add: render_html_def render_menus_concat)
  show "render_menu U wd \<lparr> restaurant_key = key, items = [error_text e] \<rparr> html =
        html @ card_head key @ dish_line (error_text e) @ u ''    </div>'' @ NL"
    by (simp add: render_menu_def Let_def)
  show "dish_line (error_text e) \<noteq> placeholder_line U wd"
    by (rule error_line_not_placeholder)
next
  assume "items dm = []"
  then show "render_menu U wd dm html =
          html @ card_head (restaurant_key dm) @
          u ''      <div class='dish'><em>ingen meny hittad f'' @ [246] @ u ''r '' @
          str_capitalize U wd @ u ''</em></div>'' @ NL @
          u ''    </div>'' @ NL"
    by (simp add: render_menu_def Let_def placeholder_line_def)
next
  assume "items dm \<noteq> []"
  then show "render_menu U wd dm html =
          html @ card_head (restaurant_key dm) @ concat (map dish_line (items dm)) @
          u ''    </div>'' @ NL"
    by (simp add: render_menu_def Let_def render_dishes_concat)
qed

theorem render_placeholder_witness:
  "render_menu latin1 (u ''ONSDAG'') \<lparr> restaurant_key = u ''Cirkeln'', items = [] \<rparr> [] =
     card_head (u ''Cirkeln'') @
     u ''      <div class='dish'><em>ingen meny hittad f'' @ [246] @ u ''r Onsdag</em></div>'' @ NL @
     u ''    </div>'' @ NL
   \<and> render_menu latin1 (u ''ONSDAG'')
         \<lparr> restaurant_key = u ''FEI'', items = [u ''Kycklingcurry'', u ''Vegetarisk lasagne''] \<rparr> [] =
     card_head (u ''FEI'') @
     u ''      <div class='dish'>Kycklingcurry</div>'' @ NL @
     u ''      <div class='dish'>Vegetarisk lasagne</div>'' @ NL @
     u ''    </div>'' @ NL"
proof -
  let ?empty = "\<lparr> restaurant_key = u ''Cirkeln'', items = [] \<rparr>"
  let ?full = "\<lparr> restaurant_key = u ''FEI'', items = [u ''Kycklingcurry'', u ''Vegetarisk lasagne''] \<rparr>"
  have cap: "str_capitalize latin1 (u ''ONSDAG'') = u ''Onsdag''"
    by (simp add: latin1_def upper_char_def lower_char_def u_def)
  have d1: "dish_line (u ''Kycklingcurry'') = u ''      <div class='dish'>Kycklingcurry</div>'' @ NL"
    by (simp add: dish_line_def force_linebreaks_id u_def)
  have d2: "dish_line (u ''Vegetarisk lasagne'') = u ''      <div class='dish'>Vegetarisk lasagne</div>'' @ NL"
    by (simp add: dish_line_def force_linebreaks_id u_def)
  have e1: "render_menu latin1 (u ''ONSDAG'') ?empty [] =
          card_head (u ''Cirkeln'') @
          u ''      <div class='dish'><em>ingen meny hittad f'' @ [246] @ u ''r '' @
          str_capitalize latin1 (u ''ONSDAG'') @ u ''</em></div>'' @ NL @
          u ''    </div>'' @ NL"
    using render_placeholder [of latin1 "[]" "u ''ONSDAG''" "[]" ?empty "[]",
        THEN conjunct2, THEN conjunct1]
    by simp
  have e2: "render_menu latin1 (u ''ONSDAG'') ?full [] =
          card_head (u ''FEI'') @
          (dish_line (u ''Kycklingcurry'') @ dish_line (u ''Vegetarisk lasagne'')) @
          u ''    </div>'' @ NL"
    using render_placeholder [of latin1 "[]" "u ''ONSDAG''" "[]" ?full "[]",
        THEN conjunct2, THEN conjunct2, THEN conjunct1]
    by simp
  show ?thesis
    unfolding e1 e2 cap d1 d2 by (simp add: u_def)
qed

text \<open>
  Claim C10.  The entry of a source whose fetch failed is rendered like any dish: its one
  item goes through \<open>force_linebreaks\<close>.  The rendered text holds no slash and no pipe, so a
  message with one of them (an address, say) is not shown verbatim but broken at them.
\<close>

theorem error_line_is_broken:
  "(get_menu_for U fetch key url wd = Inl e \<longrightarrow>
      render_menus U wd (assemble U fetch wd [(key, url)] []) html =
        html @ card_head key @
        u ''      <div class='dish'>'' @ force_linebreaks (error_text e) @ u ''</div>'' @ NL @
        u ''    </div>'' @ NL)
   \<and> 47 \<notin> set (force_linebreaks (error_text e))
   \<and> 124 \<notin> set (force_linebreaks (error_text e))
   \<and> (47 \<in> set (exn_str e) \<or> 124 \<in> set (exn_str e) \<longrightarrow>
        force_linebreaks (error_text e) \<noteq> error_text e)"
proof (intro conjI impI)
  assume "get_menu_for U fetch key url wd = Inl e"
  then show "render_menus U wd (assemble U fetch wd [(key, url)] []) html =
        html @ card_head key @
        u ''      <div class='dish'>'' @ force_linebreaks (error_text e) @ u ''</div>'' @ NL @
        u ''    </div>'' @ NL"
    by (simp add: try_menu_def render_menu_def Let_def dish_line_def)
next
  show a: "47 \<notin> set (force_linebreaks (error_text e))" by (rule force_linebreaks_removes)
  show b: "124 \<notin> set (force_linebreaks (error_text e))" by (rule force_linebreaks_removes)
  assume "47 \<in> set (exn_str e) \<or> 124 \<in> set (exn_str e)"
  then have "47 \<in> set (error_text e) \<or> 124 \<in> set (error_text e)"
    by (auto simp: error_text_def)
  with a b show "force_linebreaks (error_text e) \<noteq> error_text e" by auto
qed

theorem error_line_is_broken_witness:
  "render_menus latin1 (u ''TISDAG'')
      (assemble latin1 ex_fetch (u ''TISDAG'')
         [(u ''FEI'', u ''https://www.fei.se/meny-fei-restaurant-lounge'')] []) [] =
     card_head (u ''FEI'') @
     u ''      <div class='dish'>(fel vid h'' @ [228] @
     u ''mtning: 404 Client Error: Not Found for url: https:<br><br>www.fei.se<br>meny-fei-restaurant-lounge)</div>'' @ NL @
     u ''    </div>'' @ NL"
proof -
  let ?fei = "u ''https://www.fei.se/meny-fei-restaurant-lounge''"
  let ?e = "Exn (u ''404 Client Error: Not Found for url: https://www.fei.se/meny-fei-restaurant-lounge'')"
  have g1: "get_menu_for latin1 ex_fetch (u ''FEI'') ?fei (u ''TISDAG'') = Inl ?e"
    by (simp add: get_menu_for_def ex_fetch_def)
  have ev: "force_linebreaks (error_text ?e) =
      u ''(fel vid h'' @ [228] @
      u ''mtning: 404 Client Error: Not Found for url: https:<br><br>www.fei.se<br>meny-fei-restaurant-lounge)''"
    by (simp add: error_text_def linebreak_eval)
  have "render_menus latin1 (u ''TISDAG'')
      (assemble latin1 ex_fetch (u ''TISDAG'') [(u ''FEI'', ?fei)] []) [] =
        [] @ card_head (u ''FEI'') @
        u ''      <div class='dish'>'' @ force_linebreaks (error_text ?e) @ u ''</div>'' @ NL @
        u ''    </div>'' @ NL"
    by (rule error_line_is_broken [THEN conjunct1, rule_format]) (rule g1)
  then show ?thesis
    unfolding ev by (simp add: u_def)
qed

end
